theory Spec2Isabelle
  imports Main "HOL-Library.Sublist"
begin

section \<open>Strings of the host language\<close>

text \<open>
  The scanner of \<^verbatim>\<open>src/src/network-discovery.ts\<close> works on JavaScript strings.
  They are modelled as \<^typ>\<open>string\<close>, a list of characters with codes below 256;
  every string the scanner handles (addresses, MAC tokens, command lines) is ASCII.
\<close>

definition toLowerCase_char :: "char \<Rightarrow> char" where
  \<comment> \<open>\<^verbatim>\<open>String.prototype.toLowerCase\<close> on one code unit below 256: A-Z and the
      Latin-1 capitals (0xC0-0xDE without the multiplication sign 0xD7) move up by 32.\<close>
  "toLowerCase_char c =
     (let n = (of_char c :: nat)
      in if (65 \<le> n \<and> n \<le> 90) \<or> (192 \<le> n \<and> n \<le> 222 \<and> n \<noteq> 215)
         then char_of (n + 32) else c)"

definition toLowerCase :: "string \<Rightarrow> string" where
  "toLowerCase s = map toLowerCase_char s"

definition substring :: "nat \<Rightarrow> nat \<Rightarrow> string \<Rightarrow> string" where
  \<comment> \<open>\<^verbatim>\<open>s.substring(a, b)\<close>: the bounds are swapped when \<open>a > b\<close> and clamped to the
      length (which \<^const>\<open>take\<close> and \<^const>\<open>drop\<close> do).\<close>
  "substring a b s = take (max a b - min a b) (drop (min a b) s)"

definition startsWith :: "string \<Rightarrow> string \<Rightarrow> bool" where
  \<comment> \<open>\<^verbatim>\<open>s.startsWith(p)\<close>\<close>
  "startsWith s p = prefix p s"


fun split :: "char \<Rightarrow> string \<Rightarrow> string list" where
  \<comment> \<open>\<^verbatim>\<open>s.split(sep)\<close> for a one-character separator: never the empty list.\<close>
  "split sep [] = [[]]"
| "split sep (c # cs) =
     (if c = sep then [] # split sep cs
      else (case split sep cs of p # ps \<Rightarrow> (c # p) # ps | [] \<Rightarrow> [[c]]))"

definition index :: "'a list \<Rightarrow> nat \<Rightarrow> 'a option" where
  \<comment> \<open>\<^verbatim>\<open>xs[i]\<close>: \<open>None\<close> is JavaScript's \<^verbatim>\<open>undefined\<close> of a read out of range.\<close>
  "index xs i = (if i < length xs then Some (xs ! i) else None)"

definition ToString :: "string option \<Rightarrow> string" where
  \<comment> \<open>What a template literal or \<^verbatim>\<open>parseInt\<close> makes of a string that may be undefined.\<close>
  "ToString v = (case v of Some s \<Rightarrow> s | None \<Rightarrow> ''undefined'')"

definition digit_char :: "nat \<Rightarrow> char" where
  "digit_char d = char_of (48 + d)"

fun toString_nat :: "nat \<Rightarrow> string" where
  \<comment> \<open>The decimal rendering of a loop counter inside a template literal.\<close>
  "toString_nat n =
     (if n < 10 then [digit_char n] else toString_nat (n div 10) @ [digit_char (n mod 10)])"

declare toString_nat.simps [simp del]

definition isDigit :: "char \<Rightarrow> bool" where
  \<comment> \<open>the class \<^verbatim>\<open>\d\<close>\<close>
  "isDigit c = (48 \<le> (of_char c :: nat) \<and> (of_char c :: nat) \<le> 57)"

definition isWhiteSpace :: "char \<Rightarrow> bool" where
  \<comment> \<open>the class \<^verbatim>\<open>\s\<close> (white space and line terminators) among the codes below 256\<close>
  "isWhiteSpace c = ((of_char c :: nat) \<in> {9, 10, 11, 12, 13, 32, 160})"

definition isLineTerminator :: "char \<Rightarrow> bool" where
  \<comment> \<open>what \<^verbatim>\<open>.\<close> refuses, among the codes below 256\<close>
  "isLineTerminator c = ((of_char c :: nat) \<in> {10, 13})"

definition isHex :: "char \<Rightarrow> bool" where
  \<comment> \<open>the class \<^verbatim>\<open>[a-fA-F0-9]\<close>\<close>
  "isHex c = (isDigit c \<or> (97 \<le> (of_char c :: nat) \<and> (of_char c :: nat) \<le> 102)
                \<or> (65 \<le> (of_char c :: nat) \<and> (of_char c :: nat) \<le> 70))"

definition digit_value :: "char \<Rightarrow> nat" where
  \<comment> \<open>the value of a hexadecimal digit\<close>
  "digit_value c =
     (let n = (of_char c :: nat)
      in if 97 \<le> n then n - 87 else if 65 \<le> n then n - 55 else n - 48)"

definition parseInt :: "string \<Rightarrow> int option" where
  \<comment> \<open>\<^verbatim>\<open>parseInt(s)\<close> with no radix: leading white space is skipped, then a sign, then
      \<^verbatim>\<open>0x\<close> or \<^verbatim>\<open>0X\<close> selects radix 16, and the longest run of digits is read; \<open>None\<close>
      is \<^verbatim>\<open>NaN\<close>. The value is the exact integer (a double rounds beyond \<open>2^53\<close>, which
      no comparison with 16 or 31 can see).\<close>
  "parseInt s =
     (let s1 = dropWhile isWhiteSpace s;
          neg = (take 1 s1 = ''-'');
          s2 = (if take 1 s1 = ''-'' \<or> take 1 s1 = ''+'' then drop 1 s1 else s1);
          hex = (take 2 s2 = ''0x'' \<or> take 2 s2 = ''0X'');
          s3 = (if hex then drop 2 s2 else s2);
          radix = (if hex then 16 else 10 :: nat);
          z = takeWhile (if hex then isHex else isDigit) s3;
          v = int (foldl (\<lambda>a c. a * radix + digit_value c) 0 z)
      in if z = [] then None else Some (if neg then - v else v))"

definition num_ge :: "int option \<Rightarrow> int \<Rightarrow> bool" where
  \<comment> \<open>\<^verbatim>\<open>x >= y\<close> on numbers: false when \<open>x\<close> is \<^verbatim>\<open>NaN\<close>\<close>
  "num_ge x y = (case x of None \<Rightarrow> False | Some v \<Rightarrow> v \<ge> y)"

definition num_le :: "int option \<Rightarrow> int \<Rightarrow> bool" where
  "num_le x y = (case x of None \<Rightarrow> False | Some v \<Rightarrow> v \<le> y)"

definition slice :: "nat \<Rightarrow> nat \<Rightarrow> 'a list \<Rightarrow> 'a list" where
  \<comment> \<open>\<^verbatim>\<open>xs.slice(a, b)\<close> for bounds that are not negative\<close>
  "slice a b xs = take (b - a) (drop a xs)"


section \<open>NetworkRangeResolver: \<^verbatim>\<open>getLocalNetworkRange\<close>\<close>

record NetworkInterfaceInfo =
  address :: string
  family :: string
  internal :: bool

text \<open>
  \<^verbatim>\<open>os.networkInterfaces()\<close> is an object from interface names to address lists (a list
  may be undefined); \<^verbatim>\<open>Object.entries\<close> walks it in order.
\<close>

type_synonym interfaces = "(string \<times> NetworkInterfaceInfo list option) list"

fun getLocalNetworkRange_addrs :: "NetworkInterfaceInfo list \<Rightarrow> string option" where
  \<comment> \<open>the inner loop \<^verbatim>\<open>for (const addr of addrs)\<close>; \<open>Some r\<close> is \<^verbatim>\<open>return r\<close>\<close>
  "getLocalNetworkRange_addrs [] = None"
| "getLocalNetworkRange_addrs (addr # addrs) =
     (if family addr = ''IPv4'' \<and> \<not> internal addr then
        (let parts = split CHR ''.'' (address addr)
         in if index parts 0 = Some ''192'' \<and> index parts 1 = Some ''168'' then
              Some (ToString (index parts 0) @ ''.'' @ ToString (index parts 1) @ ''.''
                    @ ToString (index parts 2) @ ''.0/24'')
            else if index parts 0 = Some ''10'' then
              Some ''10.0.0.0/24''
            else if index parts 0 = Some ''172''
                    \<and> num_ge (parseInt (ToString (index parts 1))) 16
                    \<and> num_le (parseInt (ToString (index parts 1))) 31 then
              Some (''172.'' @ ToString (index parts 1) @ ''.0.0/16'')
            else getLocalNetworkRange_addrs addrs)
      else getLocalNetworkRange_addrs addrs)"

fun getLocalNetworkRange_entries :: "interfaces \<Rightarrow> string option" where
  \<comment> \<open>the outer loop \<^verbatim>\<open>for (const [name, addrs] of Object.entries(interfaces))\<close>\<close>
  "getLocalNetworkRange_entries [] = None"
| "getLocalNetworkRange_entries ((name, addrs) # rest) =
     (case addrs of
        None \<Rightarrow> getLocalNetworkRange_entries rest
      | Some as \<Rightarrow>
          (case getLocalNetworkRange_addrs as of
             Some r \<Rightarrow> Some r
           | None \<Rightarrow> getLocalNetworkRange_entries rest))"

definition getLocalNetworkRange :: "interfaces \<Rightarrow> string" where
  "getLocalNetworkRange ifs =
     (case getLocalNetworkRange_entries ifs of
        Some r \<Rightarrow> r
      | None \<Rightarrow> ''192.168.1.0/24'')"

section \<open>The host: processes, sockets and promises\<close>

datatype error = ExecError string
  \<comment> \<open>what \<^verbatim>\<open>execSync\<close> throws: a failed spawn, a non-zero exit status or a timeout\<close>

datatype socket_event = OnConnect | OnError | OnTimeout
  \<comment> \<open>which handler of \<^verbatim>\<open>scanPort\<close> fires first: the socket's \<^verbatim>\<open>connect\<close> or
      \<^verbatim>\<open>error\<close> event, or the timer\<close>

datatype effect = Exec string | SocketConnect nat string
  \<comment> \<open>a process run by \<^verbatim>\<open>execSync(cmd)\<close>; a connection attempt \<^verbatim>\<open>socket.connect(port, ip)\<close>\<close>

record host =
  networkInterfaces :: interfaces
  platform :: string
  execSync :: "string \<Rightarrow> error + string"
  connect_event :: "string \<Rightarrow> nat \<Rightarrow> nat \<Rightarrow> socket_event"

text \<open>
  A \<open>host\<close> is the machine the scan runs on: its interfaces, its platform name, what each
  command line does when \<^verbatim>\<open>execSync\<close> runs it (\<open>Inl\<close> is the exception thrown, \<open>Inr\<close> the
  standard output) and how a connection attempt to an address and port under a timeout
  ends.

  An asynchronous computation is its outcome (\<open>Inl\<close>: the promise is rejected, or the
  exception thrown; \<open>Inr\<close>: the value) together with the effects it had on the host, in
  order. The log keeps the order of the processes run and the order of the connection
  attempts started; how the two kinds interleave inside one batch is not modelled. The
  debug lines written with \<^verbatim>\<open>console.error\<close> change nothing a caller sees and are left
  out.
\<close>

type_synonym 'a promise = "(error + 'a) \<times> effect list"

definition resolve :: "'a \<Rightarrow> 'a promise" where
  "resolve x = (Inr x, [])"

definition await :: "'a promise \<Rightarrow> ('a \<Rightarrow> 'b promise) \<Rightarrow> 'b promise" where
  \<comment> \<open>\<^verbatim>\<open>const x = await m; ...\<close>: a rejection of \<open>m\<close> leaves the function\<close>
  "await m f =
     (case m of
        (Inl e, log) \<Rightarrow> (Inl e, log)
      | (Inr x, log) \<Rightarrow> (case f x of (r, log') \<Rightarrow> (r, log @ log')))"

definition try_catch :: "'a promise \<Rightarrow> (error \<Rightarrow> 'a promise) \<Rightarrow> 'a promise" where
  \<comment> \<open>\<^verbatim>\<open>try { m } catch (e) { h }\<close>\<close>
  "try_catch m h =
     (case m of
        (Inl e, log) \<Rightarrow> (case h e of (r, log') \<Rightarrow> (r, log @ log'))
      | (Inr x, log) \<Rightarrow> (Inr x, log))"

fun Promise_all :: "'a promise list \<Rightarrow> 'a list promise" where
  \<comment> \<open>\<^verbatim>\<open>Promise.all(ps)\<close>: every computation has been started, so every effect is kept;
      the values come in the order of \<open>ps\<close>, and one rejection rejects the whole.\<close>
  "Promise_all [] = resolve []"
| "Promise_all (p # ps) =
     (case Promise_all ps of
        (rs, logs) \<Rightarrow>
          ((case fst p of
              Inl e \<Rightarrow> Inl e
            | Inr x \<Rightarrow> (case rs of Inl e \<Rightarrow> Inl e | Inr xs \<Rightarrow> Inr (x # xs))),
           snd p @ logs))"

definition exec :: "host \<Rightarrow> string \<Rightarrow> string promise" where
  \<comment> \<open>\<^verbatim>\<open>execSync(cmd, ...)\<close>\<close>
  "exec env cmd = (execSync env cmd, [Exec cmd])"

section \<open>PortProbe: \<^verbatim>\<open>scanPort\<close>\<close>

definition scanPort :: "host \<Rightarrow> string \<Rightarrow> nat \<Rightarrow> nat \<Rightarrow> bool promise" where
  "scanPort env ip port timeout =
     ((case connect_event env ip port timeout of
         OnTimeout \<Rightarrow> Inr False
       | OnConnect \<Rightarrow> Inr True
       | OnError \<Rightarrow> Inr False),
      [SocketConnect port ip])"

section \<open>NeighborTableReader: \<^verbatim>\<open>getArpTable\<close>\<close>

text \<open>
  The three regular expressions. Each is matched as the regular-expression engine does:
  at the leftmost position where it matches at all, greedy quantifiers longest first, lazy
  ones shortest first. Where a shorter run of a greedy quantifier could never be followed
  by what the expression asks next (a digit run before a dot, a parenthesis or white
  space; white space before a MAC character), only the longest run is tried.
\<close>

fun search :: "(string \<Rightarrow> 'a option) \<Rightarrow> string \<Rightarrow> 'a option" where
  \<comment> \<open>the leftmost position at which the anchored matcher \<open>m\<close> succeeds\<close>
  "search m [] = m []"
| "search m (c # cs) = (case m (c # cs) of Some r \<Rightarrow> Some r | None \<Rightarrow> search m cs)"

definition digits1 :: "string \<Rightarrow> (string \<times> string) option" where
  \<comment> \<open>\<^verbatim>\<open>\d+\<close> at the front: the digits and the rest\<close>
  "digits1 s =
     (let ds = takeWhile isDigit s
      in if ds = [] then None else Some (ds, dropWhile isDigit s))"

definition lit :: "string \<Rightarrow> string \<Rightarrow> string option" where
  \<comment> \<open>literal text at the front: the rest\<close>
  "lit p s = (if prefix p s then Some (drop (length p) s) else None)"

definition octet_dot :: "string \<Rightarrow> (string \<times> string) option" where
  \<comment> \<open>\<^verbatim>\<open>\d+\.\<close> at the front: the text matched and the rest\<close>
  "octet_dot s =
     (case digits1 s of
        None \<Rightarrow> None
      | Some (ds, r) \<Rightarrow> (case lit ''.'' r of None \<Rightarrow> None | Some r' \<Rightarrow> Some (ds @ ''.'', r')))"

definition three_octets :: "string \<Rightarrow> (string \<times> string) option" where
  \<comment> \<open>\<^verbatim>\<open>\d+\.\d+\.\d+\.\<close> at the front\<close>
  "three_octets s =
     (case octet_dot s of
        None \<Rightarrow> None
      | Some (a, r1) \<Rightarrow>
          (case octet_dot r1 of
             None \<Rightarrow> None
           | Some (b, r2) \<Rightarrow>
               (case octet_dot r2 of
                  None \<Rightarrow> None
                | Some (c, r3) \<Rightarrow> Some (a @ b @ c, r3))))"

definition mac17 :: "(char \<Rightarrow> bool) \<Rightarrow> string \<Rightarrow> string option" where
  \<comment> \<open>\<^verbatim>\<open>[...]{17}\<close> at the front, for a character class\<close>
  "mac17 cls s =
     (if length (take 17 s) = 17 \<and> list_all cls (take 17 s) then Some (take 17 s) else None)"

definition isMacColon :: "char \<Rightarrow> bool" where
  \<comment> \<open>the class \<^verbatim>\<open>[a-fA-F0-9:]\<close>\<close>
  "isMacColon c = (isHex c \<or> c = CHR '':'')"

definition isMacDash :: "char \<Rightarrow> bool" where
  \<comment> \<open>the class \<^verbatim>\<open>[a-fA-F0-9-]\<close>\<close>
  "isMacDash c = (isHex c \<or> c = CHR ''-'')"

definition match_darwin_at :: "string \<Rightarrow> (string \<times> string) option" where
  \<comment> \<open>\<^verbatim>\<open>/\((\d+\.\d+\.\d+\.\d+)\) at ([a-fA-F0-9:]{17})/\<close> at the front\<close>
  "match_darwin_at s =
     (case lit ''('' s of
        None \<Rightarrow> None
      | Some r0 \<Rightarrow>
          (case three_octets r0 of
             None \<Rightarrow> None
           | Some (abc, r3) \<Rightarrow>
               (case digits1 r3 of
                  None \<Rightarrow> None
                | Some (d, r4) \<Rightarrow>
                    (case lit '') at '' r4 of
                       None \<Rightarrow> None
                     | Some r5 \<Rightarrow>
                         (case mac17 isMacColon r5 of
                            None \<Rightarrow> None
                          | Some m \<Rightarrow> Some (abc @ d, m))))))"

fun lazy_any_mac :: "string \<Rightarrow> string option" where
  \<comment> \<open>\<^verbatim>\<open>.*?([a-fA-F0-9:]{17})\<close> at the front: the shortest skip first\<close>
  "lazy_any_mac [] = mac17 isMacColon []"
| "lazy_any_mac (c # cs) =
     (case mac17 isMacColon (c # cs) of
        Some m \<Rightarrow> Some m
      | None \<Rightarrow> if isLineTerminator c then None else lazy_any_mac cs)"

fun linux_last_octet :: "string \<Rightarrow> string \<Rightarrow> nat \<Rightarrow> (string \<times> string) option" where
  \<comment> \<open>the last \<^verbatim>\<open>\d+\<close> of the address takes \<open>k\<close> digits of \<open>r\<close>, the longest run first, and
      gives digits back while the rest of the expression fails\<close>
  "linux_last_octet abc r 0 = None"
| "linux_last_octet abc r (Suc k) =
     (case lazy_any_mac (drop (Suc k) r) of
        Some m \<Rightarrow> Some (abc @ take (Suc k) r, m)
      | None \<Rightarrow> linux_last_octet abc r k)"

definition match_linux_at :: "string \<Rightarrow> (string \<times> string) option" where
  \<comment> \<open>\<^verbatim>\<open>/(\d+\.\d+\.\d+\.\d+).*?([a-fA-F0-9:]{17})/\<close> at the front\<close>
  "match_linux_at s =
     (case three_octets s of
        None \<Rightarrow> None
      | Some (abc, r3) \<Rightarrow> linux_last_octet abc r3 (length (takeWhile isDigit r3)))"

definition match_win32_at :: "string \<Rightarrow> (string \<times> string) option" where
  \<comment> \<open>\<^verbatim>\<open>/(\d+\.\d+\.\d+\.\d+)\s+([a-fA-F0-9-]{17})/\<close> at the front\<close>
  "match_win32_at s =
     (case three_octets s of
        None \<Rightarrow> None
      | Some (abc, r3) \<Rightarrow>
          (case digits1 r3 of
             None \<Rightarrow> None
           | Some (d, r4) \<Rightarrow>
               if takeWhile isWhiteSpace r4 = [] then None
               else (case mac17 isMacDash (dropWhile isWhiteSpace r4) of
                       None \<Rightarrow> None
                     | Some m \<Rightarrow> Some (abc @ d, m))))"

definition dash_to_colon :: "string \<Rightarrow> string" where
  \<comment> \<open>\<^verbatim>\<open>.replace(/-/g, ":")\<close>\<close>
  "dash_to_colon s = map (\<lambda>c. if c = CHR ''-'' then CHR '':'' else c) s"

definition match_line :: "string \<Rightarrow> string \<Rightarrow> (string \<times> string) option" where
  \<comment> \<open>the body of the loop over the lines up to \<^verbatim>\<open>if (match)\<close>: the two groups\<close>
  "match_line pf line =
     (if pf = ''darwin'' then search match_darwin_at line
      else if pf = ''linux'' then search match_linux_at line
      else if pf = ''win32'' then
        (case search match_win32_at line of
           None \<Rightarrow> None
         | Some (a, m) \<Rightarrow> Some (a, dash_to_colon m))
      else None)"

definition parse_arp :: "string \<Rightarrow> string \<Rightarrow> (string \<rightharpoonup> string) \<Rightarrow> (string \<rightharpoonup> string)" where
  \<comment> \<open>the loop over \<^verbatim>\<open>arpOutput.split("\n")\<close>, filling \<open>arpMap\<close>\<close>
  "parse_arp pf arpOutput arpMap =
     foldl (\<lambda>m line. case match_line pf line of
                        None \<Rightarrow> m
                      | Some (a, mc) \<Rightarrow> m(a \<mapsto> toLowerCase mc))
           arpMap (split (CHR 0x0A) arpOutput)"

definition getArpTable :: "host \<Rightarrow> (string \<rightharpoonup> string) promise" where
  \<comment> \<open>Only \<^verbatim>\<open>execSync\<close> can throw inside the \<^verbatim>\<open>try\<close>, and it does so before the map is
      touched: the handler returns the map as it was created.\<close>
  "getArpTable env =
     (let arpMap = Map.empty;
          pf = platform env
      in try_catch
           (if pf = ''darwin'' \<or> pf = ''linux'' then
              await (exec env ''arp -a'') (\<lambda>arpOutput. resolve (parse_arp pf arpOutput arpMap))
            else if pf = ''win32'' then
              await (exec env ''arp -a'') (\<lambda>arpOutput. resolve (parse_arp pf arpOutput arpMap))
            else resolve arpMap)
           (\<lambda>error. resolve arpMap))"

section \<open>VendorMatcher: \<^verbatim>\<open>isAnkerEufyDevice\<close>\<close>

definition ANKER_EUFY_OUIS :: "string list" where
  "ANKER_EUFY_OUIS =
     [''34:ea:34'', ''70:55:82'', ''90:9a:4a'', ''a4:c1:38'', ''2c:aa:8e'']"

definition isAnkerEufyDevice :: "string \<Rightarrow> bool" where
  "isAnkerEufyDevice mac =
     (let macPrefix = substring 0 8 (toLowerCase mac)
      in list_ex (\<lambda>oui. startsWith macPrefix oui) ANKER_EUFY_OUIS)"


section \<open>HostProbe: \<^verbatim>\<open>pingHost\<close>\<close>

definition pingCommand :: "string \<Rightarrow> string \<Rightarrow> string" where
  \<comment> \<open>the command line \<^verbatim>\<open>pingHost\<close> builds for a platform and an address\<close>
  "pingCommand pf ip =
     (if pf = ''win32'' then ''ping -n 1 -w 1000 '' @ ip else ''ping -c 1 -W 1 '' @ ip)"

definition pingHost :: "host \<Rightarrow> string \<Rightarrow> bool promise" where
  "pingHost env ip =
     try_catch
       (await (exec env (pingCommand (platform env) ip)) (\<lambda>_. resolve True))
       (\<lambda>_. resolve False)"

section \<open>DeviceScanner and Ranker: \<^verbatim>\<open>discoverDevices\<close>, \<^verbatim>\<open>findRoboVacs\<close>\<close>

record NetworkDevice =
  ip :: string
  mac :: "string option"
  vendor :: "string option"
  ports :: "nat list"
  isLikelyRoboVac :: bool

definition TUYA_PORTS :: "nat list" where
  "TUYA_PORTS = [6668, 6667, 443]"

definition batchSize :: nat where
  "batchSize = 20"

definition scanHost :: "host \<Rightarrow> (string \<rightharpoonup> string) \<Rightarrow> string \<Rightarrow> NetworkDevice option promise" where
  \<comment> \<open>the callback of \<^verbatim>\<open>batch.map\<close>; \<open>None\<close> is its \<^verbatim>\<open>null\<close>. \<^verbatim>\<open>mac ? ... : false\<close> takes
      an undefined and an empty string for false.\<close>
  "scanHost env arpTable ip' =
     await (pingHost env ip') (\<lambda>isAlive.
       if \<not> isAlive then resolve None
       else
         await (Promise_all (map (\<lambda>port. scanPort env ip' port 500) TUYA_PORTS)) (\<lambda>portResults.
           let openPorts = map fst (filter snd (zip TUYA_PORTS portResults))
           in if length openPorts = 0 then resolve None
              else
                let mac' = arpTable ip';
                    isAnkerDevice = (case mac' of
                                       None \<Rightarrow> False
                                     | Some m \<Rightarrow> if m = [] then False else isAnkerEufyDevice m)
                in resolve (Some \<lparr> ip = ip',
                                   mac = mac',
                                   vendor = (if isAnkerDevice then Some ''Anker/Eufy'' else None),
                                   ports = openPorts,
                                   isLikelyRoboVac = (isAnkerDevice \<and> 6668 \<in> set openPorts) \<rparr>)))"

function scanBatches ::
  "host \<Rightarrow> (string \<rightharpoonup> string) \<Rightarrow> string list \<Rightarrow> nat \<Rightarrow> NetworkDevice list
     \<Rightarrow> NetworkDevice list promise" where
  \<comment> \<open>the loop \<^verbatim>\<open>for (let i = 0; i < ips.length; i += batchSize)\<close>, with \<open>devices\<close> as
      accumulated so far\<close>
  "scanBatches env arpTable ips i devices =
     (if i < length ips then
        (let batch = slice i (i + batchSize) ips
         in await (Promise_all (map (scanHost env arpTable) batch)) (\<lambda>batchResults.
              let validDevices = map the (filter (\<lambda>device. device \<noteq> None) batchResults)
              in scanBatches env arpTable ips (i + batchSize) (devices @ validDevices)))
      else resolve devices)"
  by pat_completeness auto
termination
  by (relation "measure (\<lambda>(env, arpTable, ips, i, devices). length ips - i)")
     (auto simp: batchSize_def)

declare scanBatches.simps [simp del]

definition candidate_ips :: "string \<Rightarrow> string list" where
  \<comment> \<open>lines 160-167: the addresses to scan, from the network range (\<^verbatim>\<open>split\<close> never
      returns an empty array, so \<^verbatim>\<open>networkRange.split("/")[0]\<close> is a string)\<close>
  "candidate_ips networkRange =
     (let baseIp = ToString (index (split CHR ''/'' networkRange) 0);
          ipParts = split CHR ''.'' baseIp
      in map (\<lambda>i. ToString (index ipParts 0) @ ''.'' @ ToString (index ipParts 1) @ ''.''
                   @ ToString (index ipParts 2) @ ''.'' @ toString_nat i)
             [1..<255])"

definition compareLikely :: "NetworkDevice \<Rightarrow> NetworkDevice \<Rightarrow> int" where
  \<comment> \<open>the comparator handed to \<^verbatim>\<open>devices.sort\<close>\<close>
  "compareLikely a b =
     (if isLikelyRoboVac a \<and> \<not> isLikelyRoboVac b then - 1
      else if \<not> isLikelyRoboVac a \<and> isLikelyRoboVac b then 1
      else 0)"

fun sort_insert :: "('a \<Rightarrow> 'a \<Rightarrow> int) \<Rightarrow> 'a \<Rightarrow> 'a list \<Rightarrow> 'a list" where
  "sort_insert cmp x [] = [x]"
| "sort_insert cmp x (y # ys) =
     (if cmp x y \<le> 0 then x # y # ys else y # sort_insert cmp x ys)"

definition array_sort :: "('a \<Rightarrow> 'a \<Rightarrow> int) \<Rightarrow> 'a list \<Rightarrow> 'a list" where
  \<comment> \<open>\<^verbatim>\<open>Array.prototype.sort(cmp)\<close>, which the language defines to be stable (ECMAScript
      2019; the build targets Node 18): a stable insertion sort, each element going in
      front of the later elements it does not compare greater than.\<close>
  "array_sort cmp xs = foldr (sort_insert cmp) xs []"

definition discoverDevices :: "host \<Rightarrow> NetworkDevice list promise" where
  "discoverDevices env =
     (let networkRange = getLocalNetworkRange (networkInterfaces env)
      in await (getArpTable env) (\<lambda>arpTable.
           let ips = candidate_ips networkRange
           in await (scanBatches env arpTable ips 0 []) (\<lambda>devices.
                resolve (array_sort compareLikely devices))))"

definition findRoboVacs :: "host \<Rightarrow> NetworkDevice list promise" where
  "findRoboVacs env =
     await (discoverDevices env) (\<lambda>allDevices.
       resolve (filter (\<lambda>device. isLikelyRoboVac device
                          \<or> (6668 \<in> set (ports device) \<and> vendor device = Some ''Anker/Eufy''))
                       allDevices))"

section \<open>Example hosts\<close>

definition arp_reply :: string where
  \<comment> \<open>one line of \<^verbatim>\<open>arp -a\<close> as Linux prints it\<close>
  "arp_reply = ''? (192.168.1.50) at 34:EA:34:aa:bb:cc [ether] on eth0''"

definition example_host :: "string \<Rightarrow> error + string \<Rightarrow> string \<Rightarrow> host" where
  \<comment> \<open>A Linux machine with one external interface at \<open>addr\<close>, on which \<^verbatim>\<open>arp -a\<close> does
      \<open>arp\<close>. On the network \<open>net\<close> (three octets and a dot), the hosts 20, 50 and 51 answer
      a ping; host 50 accepts connections on 6668, host 20 on 443, and no other connection
      succeeds.\<close>
  "example_host addr arp net =
     \<lparr> networkInterfaces =
         [(''lo'', Some [\<lparr> address = ''127.0.0.1'', family = ''IPv4'', internal = True \<rparr>]),
          (''eth0'', Some [\<lparr> address = ''fe80::1'', family = ''IPv6'', internal = False \<rparr>,
                          \<lparr> address = addr, family = ''IPv4'', internal = False \<rparr>])],
       platform = ''linux'',
       execSync = (\<lambda>cmd. if cmd = ''arp -a'' then arp
                         else if cmd = ''ping -c 1 -W 1 '' @ net @ ''20''
                                 \<or> cmd = ''ping -c 1 -W 1 '' @ net @ ''50''
                                 \<or> cmd = ''ping -c 1 -W 1 '' @ net @ ''51'' then Inr []
                         else Inl (ExecError ''exit status 1'')),
       connect_event = (\<lambda>a p t. if a = net @ ''50'' \<and> p = 6668 then OnConnect
                                else if a = net @ ''20'' \<and> p = 443 then OnConnect
                                else if p = 6667 then OnTimeout
                                else OnError) \<rparr>"

definition home_host :: host where
  "home_host = example_host ''192.168.1.7'' (Inr arp_reply) ''192.168.1.''"

definition no_arp_host :: host where
  "no_arp_host = example_host ''192.168.1.7'' (Inl (ExecError ''arp: not found'')) ''192.168.1.''"

definition bsd_host :: host where
  \<comment> \<open>a platform \<^verbatim>\<open>getArpTable\<close> has no parser for\<close>
  "bsd_host = home_host \<lparr> platform := ''freebsd'' \<rparr>"

definition header_only_host :: host where
  \<comment> \<open>\<^verbatim>\<open>arp -a\<close> prints nothing a parser accepts\<close>
  "header_only_host =
     example_host ''192.168.1.7'' (Inr ''Address HWtype HWaddress Flags Mask Iface'') ''192.168.1.''"

definition device50 :: NetworkDevice where
  "device50 =
     \<lparr> ip = ''192.168.1.50'', mac = Some ''34:ea:34:aa:bb:cc'', vendor = Some ''Anker/Eufy'',
       ports = [6668], isLikelyRoboVac = True \<rparr>"

definition device20 :: NetworkDevice where
  "device20 =
     \<lparr> ip = ''192.168.1.20'', mac = None, vendor = None, ports = [443],
       isLikelyRoboVac = False \<rparr>"

definition corp_host :: host where
  "corp_host = example_host ''172.20.5.6'' (Inl (ExecError ''arp: not found'')) ''172.20.0.''"

definition branch_host :: host where
  \<comment> \<open>a machine at \<^verbatim>\<open>172.20.5.6\<close> whose neighbours 20, 50 and 51 are on its own
      \<^verbatim>\<open>172.20.5\<close> network, and whose \<^verbatim>\<open>arp -a\<close> fails\<close>
  "branch_host = example_host ''172.20.5.6'' (Inl (ExecError ''arp: not found'')) ''172.20.5.''"

section \<open>Observations on a scan\<close>

text \<open>
  The vocabulary of the properties below, each defined through the scanner's own probes.
\<close>

definition reachable :: "host \<Rightarrow> string \<Rightarrow> bool" where
  \<comment> \<open>the host answers the reachability probe\<close>
  "reachable env a = (fst (pingHost env a) = Inr True)"

definition port_open :: "host \<Rightarrow> string \<Rightarrow> nat \<Rightarrow> bool" where
  \<comment> \<open>the port probe of the scan (timeout 500) finds the port open\<close>
  "port_open env a p = (fst (scanPort env a p 500) = Inr True)"

definition open_ports :: "host \<Rightarrow> string \<Rightarrow> nat list" where
  \<comment> \<open>the candidate ports found open, in the order of \<^verbatim>\<open>TUYA_PORTS\<close>\<close>
  "open_ports env a = filter (port_open env a) TUYA_PORTS"

definition responds :: "host \<Rightarrow> string \<Rightarrow> bool" where
  \<comment> \<open>the host is reachable and has a candidate port open\<close>
  "responds env a = (reachable env a \<and> open_ports env a \<noteq> [])"

definition device_of :: "host \<Rightarrow> (string \<rightharpoonup> string) \<Rightarrow> string \<Rightarrow> NetworkDevice" where
  \<comment> \<open>the record the pipeline is shown (\<open>scanHost_eq\<close>) to build for a host that responds\<close>
  "device_of env arpTable a =
     (let anker = (case arpTable a of None \<Rightarrow> False | Some m \<Rightarrow> m \<noteq> [] \<and> isAnkerEufyDevice m)
      in \<lparr> ip = a,
           mac = arpTable a,
           vendor = (if anker then Some ''Anker/Eufy'' else None),
           ports = open_ports env a,
           isLikelyRoboVac = (anker \<and> 6668 \<in> set (open_ports env a)) \<rparr>)"

definition host_log :: "host \<Rightarrow> string \<Rightarrow> effect list" where
  \<comment> \<open>the effects the pipeline is shown to have for one address\<close>
  "host_log env a =
     Exec (pingCommand (platform env) a)
       # (if reachable env a then map (\<lambda>p. SocketConnect p a) TUYA_PORTS else [])"

definition execs :: "effect list \<Rightarrow> string list" where
  \<comment> \<open>the command lines run, in order\<close>
  "execs log = concat (map (\<lambda>e. case e of Exec c \<Rightarrow> [c] | SocketConnect p a \<Rightarrow> []) log)"

definition connects :: "effect list \<Rightarrow> (nat \<times> string) list" where
  \<comment> \<open>the connection attempts started, in order\<close>
  "connects log = concat (map (\<lambda>e. case e of Exec c \<Rightarrow> [] | SocketConnect p a \<Rightarrow> [(p, a)]) log)"

section \<open>Properties of the vendor matcher\<close>

lemma substring_0: "substring 0 n s = take n s"
  by (simp add: substring_def)

lemma toLowerCase_take: "take n (toLowerCase s) = toLowerCase (take n s)"
  by (simp add: toLowerCase_def take_map)

lemma prefix_same_length: "length p = n \<Longrightarrow> prefix p (take n s) \<longleftrightarrow> take n s = p"
proof
  assume n: "length p = n" and "prefix p (take n s)"
  then obtain zs where zs: "take n s = p @ zs"
    by (auto simp: prefix_def)
  have "length (take n s) \<le> n"
    by simp
  with zs n have "zs = []"
    by simp
  with zs show "take n s = p"
    by simp
qed simp

lemma isAnkerEufyDevice_iff:
  "isAnkerEufyDevice m \<longleftrightarrow> take 8 (toLowerCase m) \<in> set ANKER_EUFY_OUIS"
proof -
  have len: "\<And>oui. oui \<in> set ANKER_EUFY_OUIS \<Longrightarrow> length oui = 8"
    by (auto simp: ANKER_EUFY_OUIS_def)
  have "isAnkerEufyDevice m \<longleftrightarrow>
          (\<exists>oui \<in> set ANKER_EUFY_OUIS. prefix oui (take 8 (toLowerCase m)))"
    by (simp add: isAnkerEufyDevice_def substring_0 startsWith_def list_ex_iff)
  also have "\<dots> \<longleftrightarrow> (\<exists>oui \<in> set ANKER_EUFY_OUIS. take 8 (toLowerCase m) = oui)"
    using len by (metis prefix_same_length)
  finally show ?thesis by auto
qed

section \<open>Promises and probes\<close>

lemma fst_resolve [simp]: "fst (resolve x) = Inr x"
  and snd_resolve [simp]: "snd (resolve x) = []"
  by (simp_all add: resolve_def)

lemma await_Inr: "fst m = Inr x \<Longrightarrow> await m f = (fst (f x), snd m @ snd (f x))"
  by (cases m) (simp add: await_def split: prod.splits)

lemma await_Inl: "fst m = Inl e \<Longrightarrow> await m f = (Inl e, snd m)"
  by (cases m) (simp add: await_def)

lemma try_catch_Inr: "fst m = Inr x \<Longrightarrow> try_catch m h = m"
  by (cases m) (simp add: try_catch_def)

lemma try_catch_Inl: "fst m = Inl e \<Longrightarrow> try_catch m h = (fst (h e), snd m @ snd (h e))"
  by (cases m) (simp add: try_catch_def split: prod.splits)

lemma Promise_all_map:
  "(\<And>x. x \<in> set xs \<Longrightarrow> f x = (Inr (g x), l x)) \<Longrightarrow>
     Promise_all (map f xs) = (Inr (map g xs), concat (map l xs))"
  by (induction xs) (simp_all add: resolve_def)

lemma pingHost_eq:
  "pingHost env a =
     (Inr (case execSync env (pingCommand (platform env) a) of Inl e \<Rightarrow> False | Inr out \<Rightarrow> True),
      [Exec (pingCommand (platform env) a)])"
  by (cases "execSync env (pingCommand (platform env) a)")
     (simp_all add: pingHost_def exec_def await_Inr await_Inl try_catch_Inr try_catch_Inl)

lemma fst_scanPort: "fst (scanPort env a p t) = Inr (connect_event env a p t = OnConnect)"
  by (cases "connect_event env a p t") (simp_all add: scanPort_def)

lemma snd_scanPort [simp]: "snd (scanPort env a p t) = [SocketConnect p a]"
  by (simp add: scanPort_def)

lemma port_open_iff: "port_open env a p \<longleftrightarrow> connect_event env a p 500 = OnConnect"
  by (simp add: port_open_def fst_scanPort)

lemma reachable_iff:
  "reachable env a \<longleftrightarrow> (\<exists>out. execSync env (pingCommand (platform env) a) = Inr out)"
  by (cases "execSync env (pingCommand (platform env) a)") (simp_all add: reachable_def pingHost_eq)

lemma pingHost_reachable:
  "pingHost env a = (Inr (reachable env a), [Exec (pingCommand (platform env) a)])"
  by (cases "execSync env (pingCommand (platform env) a)") (simp_all add: reachable_def pingHost_eq)

lemma portResults:
  "Promise_all (map (\<lambda>port. scanPort env a port 500) TUYA_PORTS) =
     (Inr (map (port_open env a) TUYA_PORTS), map (\<lambda>p. SocketConnect p a) TUYA_PORTS)"
proof -
  have "scanPort env a p 500 = (Inr (port_open env a p), [SocketConnect p a])" for p
    by (simp add: prod_eq_iff fst_scanPort port_open_iff)
  then show ?thesis
    using Promise_all_map [of TUYA_PORTS "\<lambda>port. scanPort env a port 500" "port_open env a"
        "\<lambda>p. [SocketConnect p a]"]
    by (simp add: TUYA_PORTS_def)
qed

lemma openPorts: "map fst (filter snd (zip ps (map f ps))) = filter f ps"
  by (induction ps) simp_all

lemma openPorts_Nil: "filter snd (zip ps (map f ps)) = [] \<longleftrightarrow> filter f ps = []"
  using openPorts [of ps f] by (metis map_is_Nil_conv)

lemma scanHost_eq:
  "scanHost env arp a =
     (Inr (if responds env a then Some (device_of env arp a) else None), host_log env a)"
  by (auto simp: scanHost_def pingHost_reachable await_Inr portResults openPorts openPorts_Nil
        open_ports_def responds_def host_log_def device_of_def Let_def split: option.splits)

lemma validDevices:
  "map the (filter (\<lambda>device. device \<noteq> None) (map (\<lambda>a. if P a then Some (f a) else None) as)) =
     map f (filter P as)"
  by (induction as) simp_all

lemma scanBatches_eq:
  "scanBatches env arp ips i devices =
     (Inr (devices @ map (device_of env arp) (filter (responds env) (drop i ips))),
      concat (map (host_log env) (drop i ips)))"
proof (induction env arp ips i devices rule: scanBatches.induct)
  case (1 env arp ips i devices)
  show ?case
  proof (cases "i < length ips")
    case False
    then show ?thesis
      by (simp add: scanBatches.simps [of env arp ips i] resolve_def)
  next
    case True
    let ?batch = "slice i (i + batchSize) ips"
    have all: "Promise_all (map (scanHost env arp) ?batch) =
        (Inr (map (\<lambda>a. if responds env a then Some (device_of env arp a) else None) ?batch),
         concat (map (host_log env) ?batch))"
      by (rule Promise_all_map) (simp add: scanHost_eq)
    have batch: "?batch = take batchSize (drop i ips)"
      by (simp add: slice_def)
    have rest: "drop (i + batchSize) ips = drop batchSize (drop i ips)"
      by (simp add: add.commute)
    have split: "drop i ips = ?batch @ drop (i + batchSize) ips"
      by (simp only: batch rest append_take_drop_id)
    have m: "map (device_of env arp) (filter (responds env) (drop i ips)) =
        map (device_of env arp) (filter (responds env) ?batch)
          @ map (device_of env arp) (filter (responds env) (drop (i + batchSize) ips))"
      by (metis split filter_append map_append)
    have c: "concat (map (host_log env) (drop i ips)) =
        concat (map (host_log env) ?batch) @ concat (map (host_log env) (drop (i + batchSize) ips))"
      by (metis split map_append concat_append)
    have "scanBatches env arp ips i devices =
        (Inr ((devices @ map (device_of env arp) (filter (responds env) ?batch))
               @ map (device_of env arp) (filter (responds env) (drop (i + batchSize) ips))),
         concat (map (host_log env) ?batch) @ concat (map (host_log env) (drop (i + batchSize) ips)))"
      using True "1.IH"
      by (subst scanBatches.simps) (simp add: all await_Inr validDevices Let_def del: not_None_eq)
    also have "\<dots> = (Inr (devices @ map (device_of env arp) (filter (responds env) (drop i ips))),
        concat (map (host_log env) (drop i ips)))"
      by (simp add: m c)
    finally show ?thesis .
  qed
qed

lemma getArpTable_eq:
  "getArpTable env =
     (if platform env = ''darwin'' \<or> platform env = ''linux'' \<or> platform env = ''win32'' then
        (Inr (case execSync env ''arp -a'' of
                Inl e \<Rightarrow> Map.empty
              | Inr arpOutput \<Rightarrow> parse_arp (platform env) arpOutput Map.empty),
         [Exec ''arp -a''])
      else (Inr Map.empty, []))"
  by (cases "execSync env ''arp -a''")
     (auto simp: getArpTable_def exec_def await_Inr await_Inl try_catch_Inr try_catch_Inl
        resolve_def)

lemma getArpTable_resolves: "\<exists>arpTable. fst (getArpTable env) = Inr arpTable"
  by (simp add: getArpTable_eq)

lemma parse_lines_no_match:
  "\<forall>line \<in> set ls. match_line pf line = None \<Longrightarrow>
     foldl (\<lambda>m line. case match_line pf line of
                        None \<Rightarrow> m
                      | Some (a, mc) \<Rightarrow> m(a \<mapsto> toLowerCase mc)) arpMap ls = arpMap"
  by (induction ls arbitrary: arpMap) simp_all

lemma parse_arp_no_match:
  "\<forall>line \<in> set (split (CHR 0x0A) arpOutput). match_line pf line = None \<Longrightarrow>
     parse_arp pf arpOutput arpMap = arpMap"
  unfolding parse_arp_def by (rule parse_lines_no_match)

lemma sort_insert_likely:
  "isLikelyRoboVac x \<Longrightarrow> sort_insert compareLikely x ys = x # ys"
  by (cases ys) (simp_all add: compareLikely_def)

lemma sort_insert_unlikely:
  "\<not> isLikelyRoboVac x \<Longrightarrow> \<forall>y \<in> set ls. isLikelyRoboVac y \<Longrightarrow> \<forall>y \<in> set ns. \<not> isLikelyRoboVac y \<Longrightarrow>
     sort_insert compareLikely x (ls @ ns) = ls @ x # ns"
proof (induction ls)
  case Nil
  then show ?case
    by (cases ns) (simp_all add: compareLikely_def)
next
  case (Cons l ls)
  then show ?case
    by (simp add: compareLikely_def)
qed

lemma array_sort_partition:
  "array_sort compareLikely ds =
     filter isLikelyRoboVac ds @ filter (\<lambda>d. \<not> isLikelyRoboVac d) ds"
proof (induction ds)
  case Nil
  show ?case
    by (simp add: array_sort_def)
next
  case (Cons d ds)
  have step: "array_sort compareLikely (d # ds) = sort_insert compareLikely d (array_sort compareLikely ds)"
    by (simp add: array_sort_def)
  show ?case
  proof (cases "isLikelyRoboVac d")
    case True
    then show ?thesis
      by (simp add: step Cons.IH sort_insert_likely)
  next
    case False
    then show ?thesis
      by (simp add: step Cons.IH sort_insert_unlikely)
  qed
qed

lemma discoverDevices_eq:
  assumes "fst (getArpTable env) = Inr arpTable"
  shows "discoverDevices env =
     (Inr (array_sort compareLikely
             (map (device_of env arpTable)
                (filter (responds env)
                   (candidate_ips (getLocalNetworkRange (networkInterfaces env)))))),
      snd (getArpTable env)
        @ concat (map (host_log env) (candidate_ips (getLocalNetworkRange (networkInterfaces env)))))"
  using assms by (simp add: discoverDevices_def await_Inr scanBatches_eq Let_def)

section \<open>Addresses and the effect log\<close>

lemma digit_char_inj: "d < 10 \<Longrightarrow> d' < 10 \<Longrightarrow> digit_char d = digit_char d' \<longleftrightarrow> d = d'"
proof -
  assume d: "d < 10" "d' < 10"
  have "(of_char (digit_char k) :: nat) = 48 + k" if "k < 10" for k
    using that by (simp add: digit_char_def)
  with d show ?thesis
    by (metis add_left_cancel)
qed

lemma toString_nat_not_Nil: "toString_nat n \<noteq> []"
  by (subst toString_nat.simps) simp

lemma toString_nat_inj: "toString_nat m = toString_nat n \<Longrightarrow> m = n"
proof (induction m arbitrary: n rule: less_induct)
  case (less m)
  show ?case
  proof (cases "m < 10")
    case m: True
    show ?thesis
    proof (cases "n < 10")
      case True
      with m less.prems show ?thesis
        by (simp add: toString_nat.simps [of m] toString_nat.simps [of n] digit_char_inj)
    next
      case False
      with m less.prems show ?thesis
        by (simp add: toString_nat.simps [of m] toString_nat.simps [of n] toString_nat_not_Nil
            toString_nat_not_Nil [THEN not_sym])
    qed
  next
    case m: False
    show ?thesis
    proof (cases "n < 10")
      case True
      with m less.prems show ?thesis
        by (simp add: toString_nat.simps [of m] toString_nat.simps [of n] toString_nat_not_Nil
            toString_nat_not_Nil [THEN not_sym])
    next
      case False
      with m less.prems have eq: "toString_nat (m div 10) = toString_nat (n div 10)"
        and dg: "digit_char (m mod 10) = digit_char (n mod 10)"
        by (simp_all add: toString_nat.simps [of m] toString_nat.simps [of n])
      from m have "m div 10 < m"
        by simp
      from less.IH [OF this eq] have "m div 10 = n div 10" .
      moreover from dg have "m mod 10 = n mod 10"
        by (simp add: digit_char_inj)
      ultimately show ?thesis
        by (metis div_mult_mod_eq)
    qed
  qed
qed

lemma split_no_sep: "sep \<notin> set x \<Longrightarrow> split sep x = [x]"
  by (induction x) auto

lemma split_at_sep: "sep \<notin> set x \<Longrightarrow> split sep (x @ sep # r) = x # split sep r"
  by (induction x) auto

lemma split_not_Nil: "split sep s \<noteq> []"
  by (induction s) (auto split: list.splits)

lemma split_parts: "x \<in> set (split sep s) \<Longrightarrow> sep \<notin> set x \<and> set x \<subseteq> set s"
proof (induction s arbitrary: x)
  case Nil
  then show ?case
    by simp
next
  case (Cons c cs)
  show ?case
  proof (cases "c = sep")
    case True
    with Cons show ?thesis
      by auto
  next
    case False
    obtain p ps where ps: "split sep cs = p # ps"
      using split_not_Nil [of sep cs] by (cases "split sep cs") auto
    with False Cons.prems have "x = c # p \<or> x \<in> set ps"
      by simp
    then show ?thesis
    proof
      assume "x = c # p"
      with False Cons.IH [of p] ps show ?thesis
        by auto
    next
      assume "x \<in> set ps"
      with Cons.IH [of x] ps show ?thesis
        by auto
    qed
  qed
qed

lemma index_part:
  "sep \<notin> set (ToString (index (split sep s) k)) \<or> sep \<in> set ''undefined''"
  "set (ToString (index (split sep s) k)) \<subseteq> set s \<union> set ''undefined''"
  using split_parts [of "split sep s ! k" sep s]
  by (auto simp: index_def ToString_def)

lemma getLocalNetworkRange_addrs_form:
  assumes "getLocalNetworkRange_addrs as = Some r"
    and "\<forall>addr \<in> set as. CHR ''/'' \<notin> set (address addr)"
  shows "\<exists>a b c d n. r = a @ ''.'' @ b @ ''.'' @ c @ ''.'' @ d @ ''/'' @ n
           \<and> CHR ''.'' \<notin> set (a @ b @ c) \<and> CHR ''/'' \<notin> set (a @ b @ c @ d)"
  using assms
proof (induction as)
  case Nil
  then show ?case
    by simp
next
  case (Cons addr as)
  let ?parts = "split CHR ''.'' (address addr)"
  have noslash: "CHR ''/'' \<notin> set (address addr)"
    using Cons.prems(2) by simp
  have p: "CHR ''.'' \<notin> set (ToString (index ?parts k))"
    "CHR ''/'' \<notin> set (ToString (index ?parts k))" for k
    using index_part [of "CHR ''.''" "address addr" k] noslash by auto
  show ?case
  proof (cases "family addr = ''IPv4'' \<and> \<not> internal addr")
    case False
    with Cons show ?thesis
      by simp
  next
    case q: True
    show ?thesis
    proof (cases "index ?parts 0 = Some ''192'' \<and> index ?parts 1 = Some ''168''")
      case True
      with q have "r = ''192'' @ ''.'' @ ''168'' @ ''.'' @ ToString (index ?parts 2) @ ''.'' @ ''0'' @ ''/'' @ ''24''"
        using Cons.prems(1) by (simp add: Let_def ToString_def)
      moreover have "CHR ''.'' \<notin> set (''192'' @ ''168'' @ ToString (index ?parts 2))"
        "CHR ''/'' \<notin> set (''192'' @ ''168'' @ ToString (index ?parts 2) @ ''0'')"
        using p [of 2] by simp_all
      ultimately show ?thesis
        by blast
    next
      case nl: False
      show ?thesis
      proof (cases "index ?parts 0 = Some ''10''")
        case True
        with q nl have "r = ''10'' @ ''.'' @ ''0'' @ ''.'' @ ''0'' @ ''.'' @ ''0'' @ ''/'' @ ''24''"
          using Cons.prems(1) by (simp add: Let_def)
        moreover have "CHR ''.'' \<notin> set (''10'' @ ''0'' @ ''0'')"
          "CHR ''/'' \<notin> set (''10'' @ ''0'' @ ''0'' @ ''0'')"
          by simp_all
        ultimately show ?thesis
          by blast
      next
        case nt: False
        show ?thesis
        proof (cases "index ?parts 0 = Some ''172''
            \<and> num_ge (parseInt (ToString (index ?parts 1))) 16
            \<and> num_le (parseInt (ToString (index ?parts 1))) 31")
          case True
          with q nl nt
          have "r = ''172'' @ ''.'' @ ToString (index ?parts 1) @ ''.'' @ ''0'' @ ''.'' @ ''0'' @ ''/'' @ ''16''"
            using Cons.prems(1) by (simp add: Let_def)
          moreover have "CHR ''.'' \<notin> set (''172'' @ ToString (index ?parts 1) @ ''0'')"
            "CHR ''/'' \<notin> set (''172'' @ ToString (index ?parts 1) @ ''0'' @ ''0'')"
            using p [of 1] by simp_all
          ultimately show ?thesis
            by blast
        next
          case nc: False
          have "getLocalNetworkRange_addrs (addr # as) = getLocalNetworkRange_addrs as"
            by (simp only: getLocalNetworkRange_addrs.simps Let_def q nl nt nc if_True if_False)
              simp
          with Cons show ?thesis
            by simp
        qed
      qed
    qed
  qed
qed

lemma getLocalNetworkRange_entries_form:
  assumes "getLocalNetworkRange_entries ifs = Some r"
    and "\<forall>(name, addrs) \<in> set ifs. \<forall>as. addrs = Some as \<longrightarrow>
           (\<forall>addr \<in> set as. CHR ''/'' \<notin> set (address addr))"
  shows "\<exists>a b c d n. r = a @ ''.'' @ b @ ''.'' @ c @ ''.'' @ d @ ''/'' @ n
           \<and> CHR ''.'' \<notin> set (a @ b @ c) \<and> CHR ''/'' \<notin> set (a @ b @ c @ d)"
  using assms
proof (induction ifs rule: getLocalNetworkRange_entries.induct)
  case 1
  then show ?case
    by simp
next
  case (2 name addrs rest)
  show ?case
  proof (cases addrs)
    case None
    with 2 show ?thesis
      by simp
  next
    case (Some as)
    show ?thesis
    proof (cases "getLocalNetworkRange_addrs as")
      case None
      with Some 2 show ?thesis
        by simp
    next
      case found: (Some r')
      with Some "2.prems" have "getLocalNetworkRange_addrs as = Some r"
        and "\<forall>addr \<in> set as. CHR ''/'' \<notin> set (address addr)"
        by simp_all
      then show ?thesis
        by (rule getLocalNetworkRange_addrs_form)
    qed
  qed
qed

lemma getLocalNetworkRange_form:
  assumes "\<forall>(name, addrs) \<in> set ifs. \<forall>as. addrs = Some as \<longrightarrow>
           (\<forall>addr \<in> set as. CHR ''/'' \<notin> set (address addr))"
  shows "\<exists>a b c d n. getLocalNetworkRange ifs = a @ ''.'' @ b @ ''.'' @ c @ ''.'' @ d @ ''/'' @ n
           \<and> CHR ''.'' \<notin> set (a @ b @ c) \<and> CHR ''/'' \<notin> set (a @ b @ c @ d)"
proof (cases "getLocalNetworkRange_entries ifs")
  case None
  then have "getLocalNetworkRange ifs = ''192'' @ ''.'' @ ''168'' @ ''.'' @ ''1'' @ ''.'' @ ''0'' @ ''/'' @ ''24''"
    by (simp add: getLocalNetworkRange_def)
  moreover have "CHR ''.'' \<notin> set (''192'' @ ''168'' @ ''1'')"
    "CHR ''/'' \<notin> set (''192'' @ ''168'' @ ''1'' @ ''0'')"
    by simp_all
  ultimately show ?thesis
    by blast
next
  case (Some r)
  from getLocalNetworkRange_entries_form [OF this assms] Some show ?thesis
    by (simp add: getLocalNetworkRange_def)
qed

lemma candidate_ips_base:
  assumes "CHR ''.'' \<notin> set a" "CHR ''.'' \<notin> set b" "CHR ''.'' \<notin> set c"
    and "CHR ''/'' \<notin> set (a @ b @ c @ d)"
  shows "candidate_ips (a @ ''.'' @ b @ ''.'' @ c @ ''.'' @ d @ ''/'' @ n) =
     map (\<lambda>i. a @ ''.'' @ b @ ''.'' @ c @ ''.'' @ toString_nat i) [1..<255]"
proof -
  have "CHR ''/'' \<notin> set (a @ ''.'' @ b @ ''.'' @ c @ ''.'' @ d)"
    using assms(4) by simp
  from split_at_sep [OF this, of n]
  have base: "ToString (index (split CHR ''/'' (a @ ''.'' @ b @ ''.'' @ c @ ''.'' @ d @ ''/'' @ n)) 0) =
      a @ ''.'' @ b @ ''.'' @ c @ ''.'' @ d"
    by (simp add: index_def ToString_def)
  have "split CHR ''.'' (a @ ''.'' @ b @ ''.'' @ c @ ''.'' @ d) = a # b # c # split CHR ''.'' d"
    using assms(1-3) by (simp add: split_at_sep)
  then have parts: "index (split CHR ''.'' (a @ ''.'' @ b @ ''.'' @ c @ ''.'' @ d)) 0 = Some a"
    "index (split CHR ''.'' (a @ ''.'' @ b @ ''.'' @ c @ ''.'' @ d)) 1 = Some b"
    "index (split CHR ''.'' (a @ ''.'' @ b @ ''.'' @ c @ ''.'' @ d)) 2 = Some c"
    by (simp_all add: index_def)
  show ?thesis
    unfolding candidate_ips_def Let_def base parts by (simp add: ToString_def)
qed

lemma candidate_ips_distinct: "distinct (candidate_ips networkRange)"
  by (auto simp: candidate_ips_def Let_def distinct_map intro!: inj_onI dest: toString_nat_inj)

lemma candidate_ips_length: "length (candidate_ips networkRange) = 254"
  by (simp add: candidate_ips_def Let_def)

lemma pingCommand_inj: "pingCommand pf a = pingCommand pf b \<longleftrightarrow> a = b"
  by (simp add: pingCommand_def)

lemma execs_append: "execs (l @ l') = execs l @ execs l'"
  by (simp add: execs_def)

lemma connects_append: "connects (l @ l') = connects l @ connects l'"
  by (simp add: connects_def)

lemma execs_host_log: "execs (host_log env a) = [pingCommand (platform env) a]"
  by (auto simp: execs_def host_log_def)

lemma execs_scan: "execs (concat (map (host_log env) as)) = map (pingCommand (platform env)) as"
  by (induction as) (simp_all add: execs_append execs_host_log, simp add: execs_def)

lemma connects_host_log:
  "connects (host_log env a) = (if reachable env a then map (\<lambda>p. (p, a)) TUYA_PORTS else [])"
  by (auto simp: connects_def host_log_def o_def)

lemma connects_scan:
  "connects (concat (map (host_log env) as)) =
     concat (map (\<lambda>a. map (\<lambda>p. (p, a)) TUYA_PORTS) (filter (reachable env) as))"
  by (induction as) (simp_all add: connects_append connects_host_log, simp add: connects_def)

section \<open>The example hosts\<close>

lemma example_reachable:
  "reachable (example_host addr arp net) a \<longleftrightarrow>
     a = net @ ''20'' \<or> a = net @ ''50'' \<or> a = net @ ''51''"
  by (simp add: reachable_iff example_host_def pingCommand_def)

lemma example_open_ports:
  "open_ports (example_host addr arp net) a =
     (if a = net @ ''50'' then [6668] else if a = net @ ''20'' then [443] else [])"
  by (simp add: open_ports_def port_open_iff example_host_def TUYA_PORTS_def)

lemma example_responds:
  "responds (example_host addr arp net) a \<longleftrightarrow> a = net @ ''20'' \<or> a = net @ ''50''"
  by (auto simp: responds_def example_reachable example_open_ports)

lemma toString_nat_20_50: "toString_nat 20 = ''20''" "toString_nat 50 = ''50''"
  by code_simp+

lemma filter_upt_two:
  assumes "l \<le> a" "a < b" "b < u"
  shows "filter (\<lambda>i. i = a \<or> i = b) [l..<u] = [a, b :: nat]"
proof -
  have cut: "[i..<k] = [i..<j] @ [j..<k]" if "i \<le> j" "j \<le> k" for i j k :: nat
    using that upt_add_eq_append [of i j "k - j"] by simp
  have "[l..<u] = [l..<a] @ [a..<b] @ [b..<u]"
    using assms cut [of l a u] cut [of a b u] by simp
  then have "[l..<u] = [l..<a] @ a # [Suc a..<b] @ b # [Suc b..<u]"
    using assms by (simp add: upt_conv_Cons)
  moreover have "filter (\<lambda>i. i = a \<or> i = b) [l..<a] = []"
    "filter (\<lambda>i. i = a \<or> i = b) [Suc a..<b] = []"
    "filter (\<lambda>i. i = a \<or> i = b) [Suc b..<u] = []"
    using assms by (auto simp: filter_empty_conv)
  ultimately show ?thesis
    by simp
qed

lemma example_responding:
  "filter (responds (example_host addr arp net)) (map (\<lambda>i. net @ toString_nat i) [1..<255]) =
     [net @ ''20'', net @ ''50'']"
proof -
  have "responds (example_host addr arp net) (net @ toString_nat i) \<longleftrightarrow> i = 20 \<or> i = 50" for i
    using toString_nat_inj [of i 20] toString_nat_inj [of i 50]
    by (auto simp: example_responds toString_nat_20_50)
  then have "filter (responds (example_host addr arp net)) (map (\<lambda>i. net @ toString_nat i) [1..<255]) =
      map (\<lambda>i. net @ toString_nat i) (filter (\<lambda>i. i = 20 \<or> i = 50) [1..<255])"
    by (simp add: filter_map o_def)
  then show ?thesis
    by (simp add: filter_upt_two toString_nat_20_50)
qed

lemma home_range: "getLocalNetworkRange (networkInterfaces home_host) = ''192.168.1.0/24''"
  by code_simp

lemma home_ips:
  "candidate_ips ''192.168.1.0/24'' = map (\<lambda>i. ''192.168.1.'' @ toString_nat i) [1..<255]"
  using candidate_ips_base [of "''192''" "''168''" "''1''" "''0''" "''24''"] by simp

lemma home_arp: "fst (getArpTable home_host) = Inr [''192.168.1.50'' \<mapsto> ''34:ea:34:aa:bb:cc'']"
proof -
  have "split (CHR 0x0A) arp_reply = [arp_reply]"
    by code_simp
  moreover have "match_line ''linux'' arp_reply = Some (''192.168.1.50'', ''34:EA:34:aa:bb:cc'')"
    by code_simp
  moreover have "toLowerCase ''34:EA:34:aa:bb:cc'' = ''34:ea:34:aa:bb:cc''"
    by code_simp
  ultimately show ?thesis
    by (simp add: getArpTable_eq home_host_def example_host_def parse_arp_def)
qed

lemma home_scan: "fst (discoverDevices home_host) = Inr [device50, device20]"
proof -
  have anker: "isAnkerEufyDevice ''34:ea:34:aa:bb:cc''"
    by code_simp
  have d50: "device_of home_host [''192.168.1.50'' \<mapsto> ''34:ea:34:aa:bb:cc''] ''192.168.1.50'' = device50"
    by (simp add: device_of_def device50_def home_host_def example_open_ports anker)
  have d20: "device_of home_host [''192.168.1.50'' \<mapsto> ''34:ea:34:aa:bb:cc''] ''192.168.1.20'' = device20"
    by (simp add: device_of_def device20_def home_host_def example_open_ports)
  have ips: "candidate_ips (getLocalNetworkRange (networkInterfaces home_host)) =
      map (\<lambda>i. ''192.168.1.'' @ toString_nat i) [1..<255]"
    by (simp only: home_range home_ips)
  have "filter (responds home_host) (map (\<lambda>i. ''192.168.1.'' @ toString_nat i) [1..<255])
      = [''192.168.1.'' @ ''20'', ''192.168.1.'' @ ''50'']"
    unfolding home_host_def by (rule example_responding)
  then have "filter (responds home_host) (candidate_ips (getLocalNetworkRange (networkInterfaces home_host)))
      = [''192.168.1.20'', ''192.168.1.50'']"
    by (simp only: ips append.simps)
  then show ?thesis
    by (simp add: discoverDevices_eq [OF home_arp] array_sort_partition d50 d20 device50_def
        device20_def)
qed

lemma home_discovered:
  "fst (scanBatches home_host [''192.168.1.50'' \<mapsto> ''34:ea:34:aa:bb:cc'']
          (candidate_ips (getLocalNetworkRange (networkInterfaces home_host))) 0 [])
     = Inr [device20, device50]"
proof -
  have anker: "isAnkerEufyDevice ''34:ea:34:aa:bb:cc''"
    by code_simp
  have d50: "device_of home_host [''192.168.1.50'' \<mapsto> ''34:ea:34:aa:bb:cc''] ''192.168.1.50'' = device50"
    by (simp add: device_of_def device50_def home_host_def example_open_ports anker)
  have d20: "device_of home_host [''192.168.1.50'' \<mapsto> ''34:ea:34:aa:bb:cc''] ''192.168.1.20'' = device20"
    by (simp add: device_of_def device20_def home_host_def example_open_ports)
  have ips: "candidate_ips (getLocalNetworkRange (networkInterfaces home_host)) =
      map (\<lambda>i. ''192.168.1.'' @ toString_nat i) [1..<255]"
    by (simp only: home_range home_ips)
  have "filter (responds home_host) (map (\<lambda>i. ''192.168.1.'' @ toString_nat i) [1..<255])
      = [''192.168.1.'' @ ''20'', ''192.168.1.'' @ ''50'']"
    unfolding home_host_def by (rule example_responding)
  then have "filter (responds home_host) (candidate_ips (getLocalNetworkRange (networkInterfaces home_host)))
      = [''192.168.1.20'', ''192.168.1.50'']"
    by (simp only: ips append.simps)
  then show ?thesis
    by (simp add: scanBatches_eq d50 d20)
qed

lemma no_arp_table: "fst (getArpTable no_arp_host) = Inr Map.empty"
  by (simp add: getArpTable_eq no_arp_host_def example_host_def)

lemma no_arp_range: "getLocalNetworkRange (networkInterfaces no_arp_host) = ''192.168.1.0/24''"
  by code_simp

lemma branch_range: "getLocalNetworkRange (networkInterfaces branch_host) = ''172.20.0.0/16''"
  by code_simp

lemma branch_ips:
  "candidate_ips ''172.20.0.0/16'' = map (\<lambda>i. ''172.20.0.'' @ toString_nat i) [1..<255]"
  using candidate_ips_base [of "''172''" "''20''" "''0''" "''0''" "''16''"] by simp

lemma branch_arp: "fst (getArpTable branch_host) = Inr Map.empty"
  by (simp add: getArpTable_eq branch_host_def example_host_def)

lemma branch_scan: "fst (discoverDevices branch_host) = Inr []"
proof -
  have ips: "candidate_ips (getLocalNetworkRange (networkInterfaces branch_host)) =
      map (\<lambda>i. ''172.20.0.'' @ toString_nat i) [1..<255]"
    by (simp only: branch_range branch_ips)
  have "\<not> responds branch_host (''172.20.0.'' @ x)" for x
    by (simp add: branch_host_def example_responds)
  then have "filter (responds branch_host)
      (candidate_ips (getLocalNetworkRange (networkInterfaces branch_host))) = []"
    unfolding ips by (simp add: filter_empty_conv)
  then show ?thesis
    by (simp add: discoverDevices_eq [OF branch_arp] array_sort_def)
qed

section \<open>The devices of a scan\<close>

lemma discovered_device:
  assumes "fst (discoverDevices env) = Inr devices" and "d \<in> set devices"
  obtains arpTable a where "fst (getArpTable env) = Inr arpTable"
    and "a \<in> set (candidate_ips (getLocalNetworkRange (networkInterfaces env)))"
    and "responds env a" and "d = device_of env arpTable a"
proof -
  obtain arpTable where arp: "fst (getArpTable env) = Inr arpTable"
    using getArpTable_resolves by blast
  from assms discoverDevices_eq [OF arp] show thesis
    by (auto simp: array_sort_partition intro: that [OF arp])
qed

lemma device_of_simps [simp]:
  "ip (device_of env arpTable a) = a"
  "mac (device_of env arpTable a) = arpTable a"
  "ports (device_of env arpTable a) = open_ports env a"
  by (simp_all add: device_of_def Let_def)

lemma device_of_likely:
  "isLikelyRoboVac (device_of env arpTable a) \<longleftrightarrow>
     vendor (device_of env arpTable a) \<noteq> None \<and> 6668 \<in> set (ports (device_of env arpTable a))"
  by (simp add: device_of_def Let_def)

lemma device_of_vendor:
  "vendor (device_of env arpTable a) =
     (if \<exists>m. arpTable a = Some m \<and> isAnkerEufyDevice m then Some ''Anker/Eufy'' else None)"
proof -
  have "\<not> isAnkerEufyDevice []"
    by (simp add: isAnkerEufyDevice_iff toLowerCase_def ANKER_EUFY_OUIS_def)
  then show ?thesis
    by (auto simp: device_of_def Let_def split: option.splits)
qed

text \<open>
  Claim C3. For every device in the output of \<^verbatim>\<open>discoverDevices\<close>, the flag
  \<^verbatim>\<open>isLikelyRoboVac\<close> is true exactly when the vendor is known and the control port 6668
  is among the device's ports: the flag is a function of \<open>vendor\<close> and \<open>ports\<close>, and a true
  flag implies a defined vendor and an open control port.
\<close>
theorem isLikelyRoboVac_iff_vendor_and_control_port:
  assumes "fst (discoverDevices env) = Inr devices" and "d \<in> set devices"
  shows "isLikelyRoboVac d \<longleftrightarrow> vendor d \<noteq> None \<and> 6668 \<in> set (ports d)"
proof -
  from assms obtain arpTable a where "d = device_of env arpTable a"
    by (rule discovered_device)
  then show ?thesis
    by (simp only: device_of_likely)
qed

theorem isLikelyRoboVac_iff_vendor_and_control_port_witness:
  "fst (discoverDevices home_host) = Inr [device50, device20]
   \<and> device50 \<in> set [device50, device20]
   \<and> isLikelyRoboVac device50
   \<and> (isLikelyRoboVac device50 \<longleftrightarrow> vendor device50 \<noteq> None \<and> 6668 \<in> set (ports device50))"
  using isLikelyRoboVac_iff_vendor_and_control_port [OF home_scan, of device50] home_scan
  by (simp add: device50_def)

text \<open>
  Claim C4. Every device in the output of \<^verbatim>\<open>discoverDevices\<close> answered the reachability
  probe, and its \<open>ports\<close> are the candidate ports found open at its address: a non-empty
  subset of \<open>{6668, 6667, 443}\<close>. An address that is unreachable, or reachable with no open
  candidate port, is the address of no device in the output.
\<close>
theorem discovered_devices_answered_probes:
  assumes "fst (discoverDevices env) = Inr devices"
  shows "(d \<in> set devices \<longrightarrow>
            reachable env (ip d) \<and> ports d = open_ports env (ip d) \<and> ports d \<noteq> []
            \<and> set (ports d) \<subseteq> {6668, 6667, 443})
         \<and> (\<not> reachable env a \<or> open_ports env a = [] \<longrightarrow> a \<notin> ip ` set devices)"
proof -
  have sub: "set (open_ports env x) \<subseteq> {6668, 6667, 443}" for x
    by (auto simp: open_ports_def TUYA_PORTS_def)
  have *: "reachable env (ip d') \<and> ports d' = open_ports env (ip d') \<and> ports d' \<noteq> []"
    if "d' \<in> set devices" for d'
  proof -
    from assms that obtain arpTable x where "responds env x" "d' = device_of env arpTable x"
      by (rule discovered_device)
    then show ?thesis
      by (simp add: responds_def)
  qed
  have A: "d \<in> set devices \<longrightarrow>
      reachable env (ip d) \<and> ports d = open_ports env (ip d) \<and> ports d \<noteq> []
      \<and> set (ports d) \<subseteq> {6668, 6667, 443}"
    using * [of d] sub [of "ip d"] by auto
  have B: "\<not> reachable env a \<or> open_ports env a = [] \<longrightarrow> a \<notin> ip ` set devices"
  proof
    assume no: "\<not> reachable env a \<or> open_ports env a = []"
    show "a \<notin> ip ` set devices"
    proof
      assume "a \<in> ip ` set devices"
      then obtain d' where "d' \<in> set devices" and "a = ip d'"
        by auto
      with * [of d'] no show False
        by auto
    qed
  qed
  from A B show ?thesis
    by (rule conjI)
qed

theorem discovered_devices_answered_probes_witness:
  "fst (discoverDevices home_host) = Inr [device50, device20]
   \<and> device50 \<in> set [device50, device20]
   \<and> reachable home_host (ip device50) \<and> ports device50 = open_ports home_host (ip device50)
   \<and> ports device50 = [6668]
   \<and> reachable home_host ''192.168.1.51'' \<and> open_ports home_host ''192.168.1.51'' = []
   \<and> ''192.168.1.51'' \<notin> ip ` set [device50, device20]
   \<and> \<not> reachable home_host ''192.168.1.9''
   \<and> ''192.168.1.9'' \<notin> ip ` set [device50, device20]"
  using discovered_devices_answered_probes [OF home_scan, of device50 "''192.168.1.51''"]
    discovered_devices_answered_probes [OF home_scan, of device50 "''192.168.1.9''"]
    home_scan
  by (simp add: home_host_def example_reachable example_open_ports device50_def device20_def)

text \<open>
  Claim C5. Let \<open>ds\<close> be the list the batch loop has accumulated when it ends: the devices
  in the order of discovery, their addresses being the candidate addresses that respond, in
  the (ascending) order of the candidate list. The output of \<^verbatim>\<open>discoverDevices\<close> is the
  likely entries of \<open>ds\<close> followed by the others, each part in the order of \<open>ds\<close>: a stable
  partition, sorted by no other key.
\<close>
theorem discoverDevices_stable_partition:
  "\<exists>arpTable ds.
     fst (getArpTable env) = Inr arpTable
     \<and> fst (scanBatches env arpTable (candidate_ips (getLocalNetworkRange (networkInterfaces env))) 0 [])
         = Inr ds
     \<and> map ip ds = filter (responds env) (candidate_ips (getLocalNetworkRange (networkInterfaces env)))
     \<and> fst (discoverDevices env)
         = Inr (filter isLikelyRoboVac ds @ filter (\<lambda>d. \<not> isLikelyRoboVac d) ds)"
proof -
  obtain arpTable where arp: "fst (getArpTable env) = Inr arpTable"
    using getArpTable_resolves by blast
  let ?ips = "candidate_ips (getLocalNetworkRange (networkInterfaces env))"
  let ?ds = "map (device_of env arpTable) (filter (responds env) ?ips)"
  have "fst (scanBatches env arpTable ?ips 0 []) = Inr ?ds"
    by (simp add: scanBatches_eq)
  moreover have "map ip ?ds = filter (responds env) ?ips"
    by (simp add: o_def)
  moreover have "fst (discoverDevices env) =
      Inr (filter isLikelyRoboVac ?ds @ filter (\<lambda>d. \<not> isLikelyRoboVac d) ?ds)"
    by (simp only: discoverDevices_eq [OF arp] array_sort_partition fst_conv)
  ultimately show ?thesis
    using arp by blast
qed

theorem discoverDevices_stable_partition_witness:
  "fst (getArpTable home_host) = Inr [''192.168.1.50'' \<mapsto> ''34:ea:34:aa:bb:cc'']
   \<and> fst (scanBatches home_host [''192.168.1.50'' \<mapsto> ''34:ea:34:aa:bb:cc'']
            (candidate_ips (getLocalNetworkRange (networkInterfaces home_host))) 0 [])
       = Inr [device20, device50]
   \<and> map ip [device20, device50] = [''192.168.1.20'', ''192.168.1.50'']
   \<and> fst (discoverDevices home_host) = Inr [device50, device20]"
proof -
  from discoverDevices_stable_partition [of home_host] obtain arpTable ds
    where arp: "fst (getArpTable home_host) = Inr arpTable"
      and ds: "fst (scanBatches home_host arpTable
          (candidate_ips (getLocalNetworkRange (networkInterfaces home_host))) 0 []) = Inr ds"
      and out: "fst (discoverDevices home_host)
          = Inr (filter isLikelyRoboVac ds @ filter (\<lambda>d. \<not> isLikelyRoboVac d) ds)"
    by blast
  from arp home_arp have "arpTable = [''192.168.1.50'' \<mapsto> ''34:ea:34:aa:bb:cc'']"
    by simp
  with ds home_discovered have "ds = [device20, device50]"
    by simp
  with out have "fst (discoverDevices home_host) = Inr [device50, device20]"
    by (simp add: device50_def device20_def)
  with home_arp home_discovered show ?thesis
    by (simp add: device50_def device20_def)
qed

text \<open>
  Claim C6. \<^verbatim>\<open>findRoboVacs\<close> returns exactly the devices of \<^verbatim>\<open>discoverDevices\<close> whose flag
  \<^verbatim>\<open>isLikelyRoboVac\<close> is true, in the same order; on these devices the second disjunct of
  its filter (port 6668 open and vendor \<^verbatim>\<open>Anker/Eufy\<close>) selects the same entries as the
  flag, so it admits no further device.
\<close>
theorem findRoboVacs_filters_likely:
  "\<exists>devices.
     fst (discoverDevices env) = Inr devices
     \<and> fst (findRoboVacs env) = Inr (filter isLikelyRoboVac devices)
     \<and> filter (\<lambda>device. 6668 \<in> set (ports device) \<and> vendor device = Some ''Anker/Eufy'') devices
         = filter isLikelyRoboVac devices"
proof -
  obtain arpTable where arp: "fst (getArpTable env) = Inr arpTable"
    using getArpTable_resolves by blast
  from discoverDevices_eq [OF arp] obtain devices where dd: "fst (discoverDevices env) = Inr devices"
    by simp
  have same: "(6668 \<in> set (ports d) \<and> vendor d = Some ''Anker/Eufy'') = isLikelyRoboVac d"
    if "d \<in> set devices" for d
  proof -
    from dd that obtain arpTable x where "d = device_of env arpTable x"
      by (rule discovered_device)
    then show ?thesis
      by (auto simp: device_of_likely device_of_vendor split: if_splits)
  qed
  then have "filter (\<lambda>device. isLikelyRoboVac device
        \<or> (6668 \<in> set (ports device) \<and> vendor device = Some ''Anker/Eufy'')) devices
      = filter isLikelyRoboVac devices"
    by (intro filter_cong) auto
  then have "fst (findRoboVacs env) = Inr (filter isLikelyRoboVac devices)"
    using dd by (simp add: findRoboVacs_def await_Inr)
  moreover have "filter (\<lambda>device. 6668 \<in> set (ports device) \<and> vendor device = Some ''Anker/Eufy'')
      devices = filter isLikelyRoboVac devices"
    using same by (intro filter_cong) auto
  ultimately show ?thesis
    using dd by blast
qed

theorem findRoboVacs_filters_likely_witness:
  "fst (discoverDevices home_host) = Inr [device50, device20]
   \<and> fst (findRoboVacs home_host) = Inr [device50]"
proof -
  from findRoboVacs_filters_likely [of home_host] obtain devices
    where dd: "fst (discoverDevices home_host) = Inr devices"
      and fr: "fst (findRoboVacs home_host) = Inr (filter isLikelyRoboVac devices)"
    by blast
  from dd home_scan have "devices = [device50, device20]"
    by simp
  with fr home_scan show ?thesis
    by (simp add: device50_def device20_def)
qed

text \<open>
  Claim C10. For every device in the output of \<^verbatim>\<open>discoverDevices\<close>, the vendor is defined
  exactly when the MAC is defined and its first 8 characters, lower-cased, are one of the
  fixed OUIs; a defined vendor is the label \<^verbatim>\<open>Anker/Eufy\<close>, and comes with a defined MAC.
\<close>
theorem vendor_iff_mac_matches_oui:
  assumes "fst (discoverDevices env) = Inr devices" and "d \<in> set devices"
  shows "(vendor d \<noteq> None \<longleftrightarrow>
            (\<exists>m. mac d = Some m \<and> take 8 (toLowerCase m) \<in> set ANKER_EUFY_OUIS))
         \<and> (vendor d = None \<or> vendor d = Some ''Anker/Eufy'')
         \<and> (vendor d = None \<or> mac d \<noteq> None)"
proof -
  from assms obtain arpTable a where "d = device_of env arpTable a"
    by (rule discovered_device)
  then show ?thesis
    by (auto simp: device_of_vendor isAnkerEufyDevice_iff split: if_splits)
qed

theorem vendor_iff_mac_matches_oui_witness:
  "fst (discoverDevices home_host) = Inr [device50, device20]
   \<and> device50 \<in> set [device50, device20]
   \<and> vendor device50 = Some ''Anker/Eufy''
   \<and> mac device50 = Some ''34:ea:34:aa:bb:cc''
   \<and> take 8 (toLowerCase ''34:ea:34:aa:bb:cc'') \<in> set ANKER_EUFY_OUIS"
  using vendor_iff_mac_matches_oui [OF home_scan, of device50] home_scan
  by (simp add: device50_def)

text \<open>
  Claim C9, amended. When the neighbor table is empty, a reachable host with the control
  port open whose address is one of the 254 addresses the scan examines is still the
  address of a device in the output of \<^verbatim>\<open>discoverDevices\<close>, with \<open>mac\<close> and \<open>vendor\<close>
  undefined and the flag false. Without the restriction to the examined addresses the
  statement fails, as the host after the witness shows.
\<close>
theorem empty_arp_table_device_still_listed:
  assumes "fst (getArpTable env) = Inr Map.empty"
    and "a \<in> set (candidate_ips (getLocalNetworkRange (networkInterfaces env)))"
    and "reachable env a" and "port_open env a 6668"
  shows "\<exists>devices d. fst (discoverDevices env) = Inr devices \<and> d \<in> set devices
           \<and> ip d = a \<and> 6668 \<in> set (ports d)
           \<and> mac d = None \<and> vendor d = None \<and> \<not> isLikelyRoboVac d"
proof -
  let ?d = "device_of env Map.empty a"
  have op: "6668 \<in> set (open_ports env a)"
    using assms(4) by (simp add: open_ports_def TUYA_PORTS_def)
  then have "responds env a"
    using assms(3) by (auto simp: responds_def)
  with assms(2) have "?d \<in> set (array_sort compareLikely (map (device_of env Map.empty)
      (filter (responds env) (candidate_ips (getLocalNetworkRange (networkInterfaces env))))))"
    by (auto simp: array_sort_partition)
  moreover have "ip ?d = a \<and> 6668 \<in> set (ports ?d) \<and> mac ?d = None \<and> vendor ?d = None
      \<and> \<not> isLikelyRoboVac ?d"
    using op by (simp add: device_of_def)
  ultimately show ?thesis
    using discoverDevices_eq [OF assms(1)] by (metis fst_conv)
qed

theorem empty_arp_table_device_still_listed_witness:
  "fst (getArpTable no_arp_host) = Inr Map.empty
   \<and> ''192.168.1.50'' \<in> set (candidate_ips (getLocalNetworkRange (networkInterfaces no_arp_host)))
   \<and> reachable no_arp_host ''192.168.1.50''
   \<and> port_open no_arp_host ''192.168.1.50'' 6668
   \<and> (\<exists>devices d. fst (discoverDevices no_arp_host) = Inr devices \<and> d \<in> set devices
         \<and> ip d = ''192.168.1.50'' \<and> 6668 \<in> set (ports d)
         \<and> mac d = None \<and> vendor d = None \<and> \<not> isLikelyRoboVac d)"
proof -
  have mem: "''192.168.1.50'' \<in> set (candidate_ips (getLocalNetworkRange (networkInterfaces no_arp_host)))"
  proof -
    have "''192.168.1.'' @ toString_nat 50 \<in> (\<lambda>i. ''192.168.1.'' @ toString_nat i) ` set [1..<255]"
      by (rule imageI) simp
    then show ?thesis
      by (simp only: no_arp_range home_ips set_map toString_nat_20_50 append.simps)
  qed
  have re: "reachable no_arp_host ''192.168.1.50''"
    by (simp add: no_arp_host_def example_reachable)
  have po: "port_open no_arp_host ''192.168.1.50'' 6668"
    by (simp add: no_arp_host_def example_host_def port_open_iff)
  from empty_arp_table_device_still_listed [OF no_arp_table mem re po] no_arp_table mem re po
  show ?thesis
    by blast
qed

text \<open>
  Claim C9 as first stated asks this of every reachable host with the control port open.
  The machine at \<^verbatim>\<open>172.20.5.6\<close> resolves the range \<^verbatim>\<open>172.20.0.0/16\<close> and examines
  \<^verbatim>\<open>172.20.0.1\<close> to \<^verbatim>\<open>172.20.0.254\<close> only: its neighbour \<^verbatim>\<open>172.20.5.50\<close>, reachable and
  with port 6668 open, is in no result, the neighbor table being empty.
\<close>
theorem reachable_host_outside_scan_counterexample:
  "fst (getArpTable branch_host) = Inr Map.empty
   \<and> reachable branch_host ''172.20.5.50''
   \<and> port_open branch_host ''172.20.5.50'' 6668
   \<and> fst (discoverDevices branch_host) = Inr []"
proof -
  have "reachable branch_host ''172.20.5.50''"
    by (simp add: branch_host_def example_reachable)
  moreover have "port_open branch_host ''172.20.5.50'' 6668"
    by (simp add: branch_host_def example_host_def port_open_iff)
  ultimately show ?thesis
    using branch_arp branch_scan by simp
qed

section \<open>The addresses a scan examines\<close>

lemma discoverDevices_log:
  "snd (discoverDevices env) =
     snd (getArpTable env)
       @ concat (map (host_log env) (candidate_ips (getLocalNetworkRange (networkInterfaces env))))"
proof -
  obtain arpTable where "fst (getArpTable env) = Inr arpTable"
    using getArpTable_resolves by blast
  from discoverDevices_eq [OF this] show ?thesis
    by simp
qed

lemma execs_getArpTable: "set (execs (snd (getArpTable env))) \<subseteq> {''arp -a''}"
  by (simp add: getArpTable_eq execs_def)

lemma connects_getArpTable: "connects (snd (getArpTable env)) = []"
  by (simp add: getArpTable_eq connects_def)

text \<open>
  Claim C1. Let the resolved network range be \<open>a.b.c.d/n\<close>, for any declared prefix length
  \<open>n\<close>. The processes \<^verbatim>\<open>discoverDevices\<close> runs are those of \<^verbatim>\<open>getArpTable\<close> (at most the
  neighbor-table dump) followed by one ping of \<open>a.b.c.i\<close> for each \<open>i\<close> from 1 to 254, in
  this order and nothing else: 254 addresses, no two of them equal, each pinged once; and
  every connection attempt goes to one of them. By \<open>getLocalNetworkRange_form\<close> every range
  the resolver returns has this form, for interface addresses without a slash. The \<open>/16\<close>
  declared for a 172.16-31 address is the case \<open>a = 172\<close>, \<open>c = d = 0\<close>, \<open>n = 16\<close>: the
  scan still examines only \<open>172.b.0.1\<close> to \<open>172.b.0.254\<close>.
\<close>
theorem discoverDevices_scans_254_addresses:
  assumes "getLocalNetworkRange (networkInterfaces env) =
             a @ ''.'' @ b @ ''.'' @ c @ ''.'' @ d @ ''/'' @ n"
    and "CHR ''.'' \<notin> set (a @ b @ c)" and "CHR ''/'' \<notin> set (a @ b @ c @ d)"
  shows "execs (snd (discoverDevices env)) =
           execs (snd (getArpTable env))
             @ map (\<lambda>i. pingCommand (platform env) (a @ ''.'' @ b @ ''.'' @ c @ ''.'' @ toString_nat i))
                 [1..<255]
         \<and> set (execs (snd (getArpTable env))) \<subseteq> {''arp -a''}
         \<and> distinct (map (\<lambda>i. a @ ''.'' @ b @ ''.'' @ c @ ''.'' @ toString_nat i) [1..<255])
         \<and> length (map (\<lambda>i. a @ ''.'' @ b @ ''.'' @ c @ ''.'' @ toString_nat i) [1..<255]) = 254
         \<and> snd ` set (connects (snd (discoverDevices env)))
             \<subseteq> set (map (\<lambda>i. a @ ''.'' @ b @ ''.'' @ c @ ''.'' @ toString_nat i) [1..<255])"
proof -
  let ?ips = "map (\<lambda>i. a @ ''.'' @ b @ ''.'' @ c @ ''.'' @ toString_nat i) [1..<255]"
  have ips: "candidate_ips (getLocalNetworkRange (networkInterfaces env)) = ?ips"
    using assms(2,3) by (simp only: assms(1)) (rule candidate_ips_base, simp_all)
  have log: "snd (discoverDevices env) = snd (getArpTable env) @ concat (map (host_log env) ?ips)"
    by (simp only: discoverDevices_log ips)
  have "execs (snd (discoverDevices env)) =
      execs (snd (getArpTable env)) @ map (pingCommand (platform env)) ?ips"
    by (simp only: log execs_append execs_scan)
  then have 1: "execs (snd (discoverDevices env)) =
      execs (snd (getArpTable env))
        @ map (\<lambda>i. pingCommand (platform env) (a @ ''.'' @ b @ ''.'' @ c @ ''.'' @ toString_nat i))
            [1..<255]"
    by (simp add: o_def)
  have 3: "distinct ?ips"
    using candidate_ips_distinct [of "getLocalNetworkRange (networkInterfaces env)"]
    by (simp only: ips)
  have 4: "length ?ips = 254"
    by simp
  have "connects (snd (discoverDevices env)) =
      concat (map (\<lambda>x. map (\<lambda>p. (p, x)) TUYA_PORTS) (filter (reachable env) ?ips))"
    by (simp only: log connects_append connects_getArpTable connects_scan append_Nil)
  then have 5: "snd ` set (connects (snd (discoverDevices env))) \<subseteq> set ?ips"
    by auto
  from 1 execs_getArpTable 3 4 5 show ?thesis
    by blast
qed

lemma corp_range: "getLocalNetworkRange (networkInterfaces corp_host) = ''172.20.0.0/16''"
  by code_simp

theorem discoverDevices_scans_254_addresses_witness:
  "getLocalNetworkRange (networkInterfaces corp_host) = ''172.20.0.0/16''
   \<and> execs (snd (discoverDevices corp_host)) =
        ''arp -a'' # map (\<lambda>i. ''ping -c 1 -W 1 172.20.0.'' @ toString_nat i) [1..<255]
   \<and> distinct (map (\<lambda>i. ''172.20.0.'' @ toString_nat i) [1..<255])
   \<and> length (map (\<lambda>i. ''172.20.0.'' @ toString_nat i) [1..<255]) = 254
   \<and> snd ` set (connects (snd (discoverDevices corp_host)))
        \<subseteq> set (map (\<lambda>i. ''172.20.0.'' @ toString_nat i) [1..<255])"
proof -
  have r: "getLocalNetworkRange (networkInterfaces corp_host) =
      ''172'' @ ''.'' @ ''20'' @ ''.'' @ ''0'' @ ''.'' @ ''0'' @ ''/'' @ ''16''"
    by (simp add: corp_range)
  have arp: "execs (snd (getArpTable corp_host)) = [''arp -a'']"
    by (simp add: getArpTable_eq corp_host_def example_host_def execs_def)
  have pf: "platform corp_host = ''linux''"
    by (simp add: corp_host_def example_host_def)
  from discoverDevices_scans_254_addresses [OF r] corp_range show ?thesis
    by (simp add: arp pf pingCommand_def)
qed

section \<open>The vendor matcher, the resolver and failures\<close>

text \<open>
  Claim C8. \<^verbatim>\<open>isAnkerEufyDevice\<close> lower-cases the MAC string, takes its first 8 characters
  and tests the fixed OUIs against them as prefixes, which is membership of these 8
  characters in the OUI list. So two strings that differ only in case get the same answer,
  only the first 8 characters count, and \<^verbatim>\<open>34:EA:34:11:22:33\<close> matches \<^verbatim>\<open>34:ea:34\<close>.
\<close>
theorem isAnkerEufyDevice_lowercase_prefix_match:
  "isAnkerEufyDevice m = list_ex (\<lambda>oui. prefix oui (take 8 (toLowerCase m))) ANKER_EUFY_OUIS
   \<and> isAnkerEufyDevice m = (take 8 (toLowerCase m) \<in> set ANKER_EUFY_OUIS)
   \<and> (toLowerCase m' = toLowerCase m \<longrightarrow> isAnkerEufyDevice m' = isAnkerEufyDevice m)
   \<and> isAnkerEufyDevice (take 8 m) = isAnkerEufyDevice m
   \<and> isAnkerEufyDevice ''34:EA:34:11:22:33''"
proof -
  have 1: "isAnkerEufyDevice m = list_ex (\<lambda>oui. prefix oui (take 8 (toLowerCase m))) ANKER_EUFY_OUIS"
    by (simp add: isAnkerEufyDevice_def substring_0 startsWith_def)
  have 3: "toLowerCase m' = toLowerCase m \<longrightarrow> isAnkerEufyDevice m' = isAnkerEufyDevice m"
    by (simp add: isAnkerEufyDevice_iff)
  have 4: "isAnkerEufyDevice (take 8 m) = isAnkerEufyDevice m"
    by (simp add: isAnkerEufyDevice_iff toLowerCase_take [symmetric])
  have 5: "isAnkerEufyDevice ''34:EA:34:11:22:33''"
    by code_simp
  from 1 isAnkerEufyDevice_iff [of m] 3 4 5 show ?thesis
    by blast
qed

theorem isAnkerEufyDevice_lowercase_prefix_match_witness:
  "toLowerCase ''34:EA:34:11:22:33'' = toLowerCase ''34:ea:34:11:22:33''
   \<and> isAnkerEufyDevice ''34:EA:34:11:22:33'' = isAnkerEufyDevice ''34:ea:34:11:22:33''
   \<and> take 8 (toLowerCase ''34:EA:34:11:22:33'') = ''34:ea:34''
   \<and> isAnkerEufyDevice ''34:EA:34:11:22:33''
   \<and> \<not> isAnkerEufyDevice ''11:22:33:34:EA:34''"
proof -
  have l: "toLowerCase ''34:EA:34:11:22:33'' = toLowerCase ''34:ea:34:11:22:33''"
    by code_simp
  have t: "take 8 (toLowerCase ''34:EA:34:11:22:33'') = ''34:ea:34''"
    by code_simp
  have n: "\<not> isAnkerEufyDevice ''11:22:33:34:EA:34''"
    by code_simp
  from isAnkerEufyDevice_lowercase_prefix_match [of "''34:ea:34:11:22:33''" "''34:EA:34:11:22:33''"] l t n show ?thesis
    by blast
qed

text \<open>
  Claim C2. \<^verbatim>\<open>getLocalNetworkRange\<close> maps \<^verbatim>\<open>192.168.7.3\<close> to the \<^verbatim>\<open>/24\<close> of its own
  first three octets, but \<^verbatim>\<open>10.1.2.3\<close> to the fixed range \<^verbatim>\<open>10.0.0.0/24\<close>: the branch
  for \<^verbatim>\<open>10.x.y.z\<close> returns a constant and reads neither \<open>x\<close> nor \<open>y\<close>. The scan from
  \<^verbatim>\<open>10.1.2.3\<close> then starts at \<^verbatim>\<open>10.0.0.1\<close> and never examines an address of the
  host's own \<^verbatim>\<open>/24\<close>.
\<close>
theorem getLocalNetworkRange_10_ignores_octets:
  "getLocalNetworkRange
     [(''eth0'', Some [\<lparr> address = ''10.1.2.3'', family = ''IPv4'', internal = False \<rparr>])]
     = ''10.0.0.0/24''
   \<and> getLocalNetworkRange
       [(''eth0'', Some [\<lparr> address = ''192.168.7.3'', family = ''IPv4'', internal = False \<rparr>])]
       = ''192.168.7.0/24''
   \<and> ''10.1.2.3'' \<notin> set (candidate_ips ''10.0.0.0/24'')
   \<and> hd (candidate_ips ''10.0.0.0/24'') = ''10.0.0.1''"
proof -
  have ips: "candidate_ips ''10.0.0.0/24'' = map (\<lambda>i. ''10.0.0.'' @ toString_nat i) [1..<255]"
    using candidate_ips_base [of "''10''" "''0''" "''0''" "''0''" "''24''"] by simp
  have "getLocalNetworkRange
     [(''eth0'', Some [\<lparr> address = ''10.1.2.3'', family = ''IPv4'', internal = False \<rparr>])]
     = ''10.0.0.0/24''"
    by code_simp
  moreover have "getLocalNetworkRange
       [(''eth0'', Some [\<lparr> address = ''192.168.7.3'', family = ''IPv4'', internal = False \<rparr>])]
       = ''192.168.7.0/24''"
    by code_simp
  moreover have "''10.1.2.3'' \<notin> set (candidate_ips ''10.0.0.0/24'')"
    by (auto simp: ips)
  moreover have "toString_nat 1 = ''1''"
    by code_simp
  then have "hd (candidate_ips ''10.0.0.0/24'') = ''10.0.0.1''"
    by (simp add: ips upt_conv_Cons)
  ultimately show ?thesis
    by blast
qed

text \<open>
  Claim C7. A ping whose process fails (an error or a timeout of \<^verbatim>\<open>execSync\<close>) makes
  \<^verbatim>\<open>pingHost\<close> resolve to false; a connection that ends in an error or in the timer makes
  \<^verbatim>\<open>scanPort\<close> resolve to false; a neighbor-table command that fails, a platform without a
  parser and an output in which no line parses each make \<^verbatim>\<open>getArpTable\<close> resolve to the
  empty map. Whatever the probes do, \<^verbatim>\<open>pingHost\<close>, \<^verbatim>\<open>scanPort\<close>, \<^verbatim>\<open>getArpTable\<close>,
  \<^verbatim>\<open>discoverDevices\<close> and \<^verbatim>\<open>findRoboVacs\<close> resolve to a value: none of them is rejected.
\<close>
theorem probe_failures_never_raise:
  "(execSync env (pingCommand (platform env) a) = Inl e \<longrightarrow> fst (pingHost env a) = Inr False)
   \<and> (connect_event env a p t = OnError \<or> connect_event env a p t = OnTimeout
        \<longrightarrow> fst (scanPort env a p t) = Inr False)
   \<and> (execSync env ''arp -a'' = Inl e' \<longrightarrow> fst (getArpTable env) = Inr Map.empty)
   \<and> (platform env \<notin> {''darwin'', ''linux'', ''win32''} \<longrightarrow> fst (getArpTable env) = Inr Map.empty)
   \<and> (execSync env ''arp -a'' = Inr out
        \<and> (\<forall>line \<in> set (split (CHR 0x0A) out). match_line (platform env) line = None)
        \<longrightarrow> fst (getArpTable env) = Inr Map.empty)
   \<and> (\<exists>alive. fst (pingHost env a) = Inr alive)
   \<and> (\<exists>open. fst (scanPort env a p t) = Inr open)
   \<and> (\<exists>arpTable. fst (getArpTable env) = Inr arpTable)
   \<and> (\<exists>devices. fst (discoverDevices env) = Inr devices)
   \<and> (\<exists>devices. fst (findRoboVacs env) = Inr devices)"
proof -
  have 1: "execSync env (pingCommand (platform env) a) = Inl e \<longrightarrow> fst (pingHost env a) = Inr False"
    by (simp add: pingHost_eq)
  have 2: "connect_event env a p t = OnError \<or> connect_event env a p t = OnTimeout
      \<longrightarrow> fst (scanPort env a p t) = Inr False"
    by (auto simp: fst_scanPort)
  have 3: "execSync env ''arp -a'' = Inl e' \<longrightarrow> fst (getArpTable env) = Inr Map.empty"
    by (simp add: getArpTable_eq)
  have 4: "platform env \<notin> {''darwin'', ''linux'', ''win32''} \<longrightarrow> fst (getArpTable env) = Inr Map.empty"
    by (simp add: getArpTable_eq)
  have 5: "execSync env ''arp -a'' = Inr out
        \<and> (\<forall>line \<in> set (split (CHR 0x0A) out). match_line (platform env) line = None)
        \<longrightarrow> fst (getArpTable env) = Inr Map.empty"
    by (simp add: getArpTable_eq parse_arp_no_match)
  have 6: "\<exists>alive. fst (pingHost env a) = Inr alive"
    by (simp add: pingHost_eq)
  have 7: "\<exists>open. fst (scanPort env a p t) = Inr open"
    by (simp add: fst_scanPort)
  obtain arpTable where arp: "fst (getArpTable env) = Inr arpTable"
    using getArpTable_resolves by blast
  from discoverDevices_eq [OF arp] obtain devices where dd: "fst (discoverDevices env) = Inr devices"
    by simp
  then have 10: "\<exists>devices. fst (findRoboVacs env) = Inr devices"
    by (simp add: findRoboVacs_def await_Inr)
  from 1 2 3 4 5 6 7 arp dd 10 show ?thesis
    by blast
qed

theorem probe_failures_never_raise_witness:
  "execSync no_arp_host (pingCommand (platform no_arp_host) ''192.168.1.9'')
     = Inl (ExecError ''exit status 1'')
   \<and> fst (pingHost no_arp_host ''192.168.1.9'') = Inr False
   \<and> connect_event no_arp_host ''192.168.1.50'' 6667 500 = OnTimeout
   \<and> fst (scanPort no_arp_host ''192.168.1.50'' 6667 500) = Inr False
   \<and> connect_event no_arp_host ''192.168.1.50'' 443 500 = OnError
   \<and> fst (scanPort no_arp_host ''192.168.1.50'' 443 500) = Inr False
   \<and> execSync no_arp_host ''arp -a'' = Inl (ExecError ''arp: not found'')
   \<and> fst (getArpTable no_arp_host) = Inr Map.empty
   \<and> platform bsd_host = ''freebsd''
   \<and> fst (getArpTable bsd_host) = Inr Map.empty
   \<and> execSync header_only_host ''arp -a'' = Inr ''Address HWtype HWaddress Flags Mask Iface''
   \<and> match_line (platform header_only_host) ''Address HWtype HWaddress Flags Mask Iface'' = None
   \<and> fst (getArpTable header_only_host) = Inr Map.empty"
proof -
  have ping: "execSync no_arp_host (pingCommand (platform no_arp_host) ''192.168.1.9'')
      = Inl (ExecError ''exit status 1'')"
    by (simp add: no_arp_host_def example_host_def pingCommand_def)
  have timeout: "connect_event no_arp_host ''192.168.1.50'' 6667 500 = OnTimeout"
    and refused: "connect_event no_arp_host ''192.168.1.50'' 443 500 = OnError"
    and arp: "execSync no_arp_host ''arp -a'' = Inl (ExecError ''arp: not found'')"
    by (simp_all add: no_arp_host_def example_host_def)
  have bsd: "platform bsd_host = ''freebsd''"
    by (simp add: bsd_host_def)
  have out: "execSync header_only_host ''arp -a'' = Inr ''Address HWtype HWaddress Flags Mask Iface''"
    and pf: "platform header_only_host = ''linux''"
    by (simp_all add: header_only_host_def example_host_def)
  have lines: "split (CHR 0x0A) ''Address HWtype HWaddress Flags Mask Iface''
      = [''Address HWtype HWaddress Flags Mask Iface'']"
    by code_simp
  have none: "match_line ''linux'' ''Address HWtype HWaddress Flags Mask Iface'' = None"
    by code_simp
  from probe_failures_never_raise [where env = no_arp_host and a = "''192.168.1.9''" and e = "ExecError ''exit status 1''"
      and e' = "ExecError ''arp: not found''"] ping arp
  have a: "fst (pingHost no_arp_host ''192.168.1.9'') = Inr False
      \<and> fst (getArpTable no_arp_host) = Inr Map.empty"
    by blast
  from probe_failures_never_raise [where env = no_arp_host and a = "''192.168.1.50''" and p = 6667 and t = 500] timeout
  have b: "fst (scanPort no_arp_host ''192.168.1.50'' 6667 500) = Inr False"
    by blast
  from probe_failures_never_raise [where env = no_arp_host and a = "''192.168.1.50''" and p = 443 and t = 500] refused
  have b': "fst (scanPort no_arp_host ''192.168.1.50'' 443 500) = Inr False"
    by blast
  from probe_failures_never_raise [where env = bsd_host] bsd
  have c: "fst (getArpTable bsd_host) = Inr Map.empty"
    by simp
  from probe_failures_never_raise [where env = header_only_host and out = "''Address HWtype HWaddress Flags Mask Iface''"]
    out pf lines none
  have d: "fst (getArpTable header_only_host) = Inr Map.empty"
    by simp
  from a b b' c d ping timeout refused arp bsd out none pf show ?thesis
    by simp
qed

end
